theory Spec2Isabelle
  imports Complex_Main "HOL-Library.Word"
begin

section \<open>Outcomes of a run\<close>

text \<open>
  The parser of \<^verbatim>\<open>file_parse.cpp\<close> leaves a function in four ways: it returns, it
  calls \<^verbatim>\<open>exit(n)\<close>, a library call throws (\<^verbatim>\<open>std::stoi\<close>, \<^verbatim>\<open>std::stof\<close>), or it
  dereferences an iterator or pointer outside its buffer, which C++ leaves undefined.
  Each of these is a value of the model. Loops and recursions that the source does not
  bound are given a step budget; a run whose budget is used up is \<open>Timeout\<close>.
\<close>

datatype error =
    Exit nat            \<comment> \<open>\<^verbatim>\<open>exit(n)\<close> after a diagnostic on \<^verbatim>\<open>std::cerr\<close>\<close>
  | InvalidArgument     \<comment> \<open>\<^verbatim>\<open>std::invalid_argument\<close>\<close>
  | OutOfRange          \<comment> \<open>\<^verbatim>\<open>std::out_of_range\<close>\<close>
  | OutOfBounds         \<comment> \<open>a read or write outside the buffer\<close>

datatype 'a result = Ok 'a | Raise error | Timeout

fun bind :: "'a result \<Rightarrow> ('a \<Rightarrow> 'b result) \<Rightarrow> 'b result" where
  "bind (Ok x) f = f x"
| "bind (Raise e) f = Raise e"
| "bind Timeout f = Timeout"

fun returns :: "'a result \<Rightarrow> bool" where
  "returns (Ok x) = True"
| "returns (Raise e) = False"
| "returns Timeout = False"

section \<open>Data model\<close>

text \<open>
  The header \<^verbatim>\<open>file_parse.h\<close> is not part of the sources at hand. The types below are
  the ones \<^verbatim>\<open>file_parse.cpp\<close> uses, with the fields it reads and writes.
\<close>

datatype lexeme =
    NONE | BEGIN_MARKER | END_MARKER | REGION | REGION_TYPE | TYPE_NAME
  | VAR_IDENTIFIER | VAR_VALUE | DEF | DEF_TYPE | SINGLE_COMMENT
  | DOUBLE_COMMENT_BEGIN | DOUBLE_COMMENT_END | NEW_LINE

record lexed_token =
  lex :: lexeme
  raw_token :: string

text \<open>
  Three field names of the source are reserved words here: \<^verbatim>\<open>identifier\<close> and
  \<^verbatim>\<open>value\<close> of \<^verbatim>\<open>variable\<close> are \<open>ident\<close> and \<open>val\<close>, and \<^verbatim>\<open>experiment\<close> of
  \<^verbatim>\<open>parsed_trial_section\<close> is \<open>experiment_pairs\<close>.
\<close>

record variable =
  type_name :: string
  ident :: string
  val :: string

type_synonym pair = "string \<times> string"

record parsed_var_section =
  param_map :: "string \<rightharpoonup> variable"

record parsed_trial_section =
  trial_map :: "string \<rightharpoonup> (string \<rightharpoonup> variable)"
  block_map :: "string \<rightharpoonup> pair list"
  session_map :: "string \<rightharpoonup> pair list"
  experiment_pairs :: "pair list"

record parsed_expt_file =
  parsed_var_sections :: "string \<rightharpoonup> parsed_var_section"
  parsed_trial_info :: parsed_trial_section

record parsed_build_file =
  build_var_sections :: "string \<rightharpoonup> parsed_var_section"

type_synonym ct_uint32_t = "32 word"

section \<open>\<^verbatim>\<open>std::stoi\<close>\<close>

definition is_space :: "char \<Rightarrow> bool" where
  "is_space c = (c \<in> set [CHR '' '', CHR 0x09, CHR 0x0A, CHR 0x0B, CHR 0x0C, CHR 0x0D])"

definition is_digit :: "char \<Rightarrow> bool" where
  "is_digit c = (c \<in> set ''0123456789'')"

definition digit_val :: "char \<Rightarrow> int" where
  "digit_val c = int (of_char c) - 48"

fun decimal :: "int \<Rightarrow> string \<Rightarrow> int" where
  "decimal acc [] = acc"
| "decimal acc (c # cs) = decimal (10 * acc + digit_val c) cs"

text \<open>
  \<^verbatim>\<open>std::stoi(str)\<close> with base 10: leading white space is skipped, one sign is
  accepted, the longest run of digits is converted and the rest of the string is
  ignored. No digit at all throws \<^verbatim>\<open>std::invalid_argument\<close>; a value that does not fit
  an \<^verbatim>\<open>int\<close> throws \<^verbatim>\<open>std::out_of_range\<close>.
\<close>

definition stoi :: "string \<Rightarrow> int result" where
  "stoi str =
     (let s1 = dropWhile is_space str;
          neg = (case s1 of [] \<Rightarrow> False | c # _ \<Rightarrow> c = CHR ''-'');
          s2 = (case s1 of [] \<Rightarrow> [] | c # r \<Rightarrow> if c = CHR ''-'' \<or> c = CHR ''+'' then r else s1);
          ds = takeWhile is_digit s2;
          v = (if neg then - decimal 0 ds else decimal 0 ds)
      in if ds = [] then Raise InvalidArgument
         else if v < - (2 ^ 31) \<or> 2 ^ 31 - 1 < v then Raise OutOfRange
         else Ok v)"

text \<open>The conversion of the \<^verbatim>\<open>int\<close> to \<^verbatim>\<open>ct_uint32_t\<close> wraps modulo \<open>2 ^ 32\<close>.\<close>

definition stoi_u32 :: "string \<Rightarrow> ct_uint32_t result" where
  "stoi_u32 str = bind (stoi str) (\<lambda>v. Ok (word_of_int v))"

section \<open>Trial count\<close>

text \<open>
  The body of the \<^verbatim>\<open>for\<close> loop of \<^verbatim>\<open>calculate_num_trials_helper\<close> for one pair:
  \<open>rec\<close> is the recursive call, which multiplies the count it is given by the sum of the
  referenced list. The session map is looked up before the block map.
\<close>

definition count_pair ::
  "(pair list \<Rightarrow> ct_uint32_t \<Rightarrow> ct_uint32_t result) \<Rightarrow> parsed_trial_section \<Rightarrow> pair
     \<Rightarrow> ct_uint32_t result" where
  "count_pair rec pt_section vec_pair =
     bind (stoi_u32 (snd vec_pair)) (\<lambda>temp_count.
       case session_map pt_section (fst vec_pair) of
         Some v \<Rightarrow> rec v temp_count
       | None \<Rightarrow>
          (case block_map pt_section (fst vec_pair) of
             Some v \<Rightarrow> rec v temp_count
           | None \<Rightarrow> Ok temp_count))"

text \<open>The loop itself, with the running \<^verbatim>\<open>temp_sum\<close>.\<close>

fun count_loop ::
  "(pair \<Rightarrow> ct_uint32_t result) \<Rightarrow> pair list \<Rightarrow> ct_uint32_t \<Rightarrow> ct_uint32_t result" where
  "count_loop body [] temp_sum = Ok temp_sum"
| "count_loop body (vec_pair # rest) temp_sum =
     bind (body vec_pair) (\<lambda>temp_count. count_loop body rest (temp_sum + temp_count))"

text \<open>
  \<^verbatim>\<open>calculate_num_trials_helper\<close>: the third argument is the value of the reference
  parameter \<^verbatim>\<open>temp_num_trials\<close> on entry, the result its value on return. The first
  argument bounds the depth of the recursion, which the source does not.
\<close>

fun calculate_num_trials_helper ::
  "nat \<Rightarrow> parsed_trial_section \<Rightarrow> pair list \<Rightarrow> ct_uint32_t \<Rightarrow> ct_uint32_t result" where
  "calculate_num_trials_helper 0 pt_section in_vec temp_num_trials = Timeout"
| "calculate_num_trials_helper (Suc depth) pt_section in_vec temp_num_trials =
     bind (count_loop (count_pair (calculate_num_trials_helper depth pt_section) pt_section)
             in_vec 0)
       (\<lambda>temp_sum. Ok (temp_num_trials * temp_sum))"

definition calculate_num_trials :: "nat \<Rightarrow> parsed_trial_section \<Rightarrow> ct_uint32_t result" where
  "calculate_num_trials depth pt_section =
     calculate_num_trials_helper depth pt_section (experiment_pairs pt_section) 1"

section \<open>Tokenizer\<close>

text \<open>
  \<^verbatim>\<open>getline\<close> over the whole file: a line ends at \<^verbatim>\<open>'\n'\<close>, which is dropped; characters
  after the last \<^verbatim>\<open>'\n'\<close> form a last line; at the end of the file with nothing read the
  call fails and the loop of \<^verbatim>\<open>tokenize_file\<close> ends. The second argument holds the
  characters of the current line, last first.
\<close>

fun getlines :: "string \<Rightarrow> string \<Rightarrow> string list" where
  "getlines [] cur = (if cur = [] then [] else [rev cur])"
| "getlines (c # cs) cur =
     (if c = CHR 0x0A then rev cur # getlines cs [] else getlines cs (c # cur))"

text \<open>
  \<^verbatim>\<open>while (line_buf >> token)\<close>: white space is skipped, and a token is a maximal run of
  characters that are not white space.
\<close>

fun split_tokens :: "string \<Rightarrow> string \<Rightarrow> string list" where
  "split_tokens [] cur = (if cur = [] then [] else [rev cur])"
| "split_tokens (c # cs) cur =
     (if is_space c then (if cur = [] then split_tokens cs [] else rev cur # split_tokens cs [])
      else split_tokens cs (c # cur))"

type_synonym tokenized_file = "string list list"

text \<open>The loop of \<^verbatim>\<open>tokenize_file\<close> over the lines, appending to \<^verbatim>\<open>t_file.tokens\<close>.\<close>

fun tokenize_lines :: "string list \<Rightarrow> tokenized_file \<Rightarrow> tokenized_file" where
  "tokenize_lines [] t_file = t_file"
| "tokenize_lines (line # rest) t_file =
     (if line = [] then tokenize_lines rest t_file
      else tokenize_lines rest (t_file @ [split_tokens line []]))"

text \<open>
  \<^verbatim>\<open>tokenize_file\<close>: the first argument is the content of the file, \<open>None\<close> when the file
  cannot be opened.
\<close>

definition tokenize_file :: "string option \<Rightarrow> tokenized_file \<Rightarrow> tokenized_file result" where
  "tokenize_file in_file t_file =
     (case in_file of
        None \<Rightarrow> Raise (Exit 3)
      | Some content \<Rightarrow> Ok (tokenize_lines (getlines content []) t_file))"

section \<open>Lexer\<close>

text \<open>
  \<^verbatim>\<open>std::regex_match\<close> decides whether the whole token belongs to the language of the
  pattern. The two patterns of the source use character classes, sequence, \<^verbatim>\<open>?\<close>, \<^verbatim>\<open>*\<close>,
  \<^verbatim>\<open>+\<close> and \<^verbatim>\<open>{1}\<close> only; membership is computed by derivatives.
\<close>

datatype regex =
    Nothing
  | Empty
  | Class "(char \<times> char) list"
  | Seq regex regex
  | Alt regex regex
  | Star regex

definition Opt :: "regex \<Rightarrow> regex" where
  "Opt r = Alt r Empty"

definition Plus :: "regex \<Rightarrow> regex" where
  "Plus r = Seq r (Star r)"

definition in_class :: "char \<Rightarrow> (char \<times> char) list \<Rightarrow> bool" where
  "in_class c ranges =
     list_ex (\<lambda>(lo, hi). (of_char lo :: nat) \<le> of_char c \<and> (of_char c :: nat) \<le> of_char hi) ranges"

fun nullable :: "regex \<Rightarrow> bool" where
  "nullable Nothing = False"
| "nullable Empty = True"
| "nullable (Class ranges) = False"
| "nullable (Seq r s) = (nullable r \<and> nullable s)"
| "nullable (Alt r s) = (nullable r \<or> nullable s)"
| "nullable (Star r) = True"

fun deriv :: "char \<Rightarrow> regex \<Rightarrow> regex" where
  "deriv c Nothing = Nothing"
| "deriv c Empty = Nothing"
| "deriv c (Class ranges) = (if in_class c ranges then Empty else Nothing)"
| "deriv c (Seq r s) =
     (if nullable r then Alt (Seq (deriv c r) s) (deriv c s) else Seq (deriv c r) s)"
| "deriv c (Alt r s) = Alt (deriv c r) (deriv c s)"
| "deriv c (Star r) = Seq (deriv c r) (Star r)"

fun regex_match :: "string \<Rightarrow> regex \<Rightarrow> bool" where
  "regex_match [] r = nullable r"
| "regex_match (c # cs) r = regex_match cs (deriv c r)"

definition var_id_regex_str :: string where
  "var_id_regex_str = ''[a-zA-Z_]{1}[a-zA-Z0-9_]*''"

definition var_val_regex_str :: string where
  "var_val_regex_str = ''[+-]?([0-9]*[.])?[0-9]*([e][+-]?[0-9]+)?''"

text \<open>\<^verbatim>\<open>std::regex var_id_regex(var_id_regex_str)\<close>\<close>

definition var_id_regex :: regex where
  "var_id_regex =
     Seq (Class [(CHR ''a'', CHR ''z''), (CHR ''A'', CHR ''Z''), (CHR ''_'', CHR ''_'')])
         (Star (Class [(CHR ''a'', CHR ''z''), (CHR ''A'', CHR ''Z''), (CHR ''0'', CHR ''9''),
                       (CHR ''_'', CHR ''_'')]))"

definition sign_class :: regex where
  "sign_class = Class [(CHR ''+'', CHR ''+''), (CHR ''-'', CHR ''-'')]"

definition digit_class :: regex where
  "digit_class = Class [(CHR ''0'', CHR ''9'')]"

text \<open>\<^verbatim>\<open>std::regex var_val_regex(var_val_regex_str)\<close>\<close>

definition var_val_regex :: regex where
  "var_val_regex =
     Seq (Opt sign_class)
       (Seq (Opt (Seq (Star digit_class) (Class [(CHR ''.'', CHR ''.'')])))
         (Seq (Star digit_class)
           (Opt (Seq (Class [(CHR ''e'', CHR ''e'')])
                  (Seq (Opt sign_class) (Plus digit_class))))))"

text \<open>The table \<^verbatim>\<open>token_defs\<close>, in the order of its initialiser.\<close>

definition token_defs_list :: "(string \<times> lexeme) list" where
  "token_defs_list =
     [(''begin'', BEGIN_MARKER),
      (''end'', END_MARKER),
      (''filetype'', REGION),
      (''section'', REGION),
      (''build'', REGION_TYPE),
      (''run'', REGION_TYPE),
      (''connectivity'', REGION_TYPE),
      (''activity'', REGION_TYPE),
      (''trial_def'', REGION_TYPE),
      (''mf_input'', REGION_TYPE),
      (''trial_spec'', REGION_TYPE),
      (''activity'', REGION_TYPE),
      (''int'', TYPE_NAME),
      (''float'', TYPE_NAME),
      (var_id_regex_str, VAR_IDENTIFIER),
      (var_val_regex_str, VAR_VALUE),
      (''def'', DEF),
      (''trial'', DEF_TYPE),
      (''block'', DEF_TYPE),
      (''session'', DEF_TYPE),
      (''experiment'', DEF_TYPE),
      (''//'', SINGLE_COMMENT),
      (''/*'', DOUBLE_COMMENT_BEGIN),
      (''*/'', DOUBLE_COMMENT_END)]"

definition token_defs :: "string \<rightharpoonup> lexeme" where
  "token_defs = map_of token_defs_list"

text \<open>
  Modelled from the spec: the declaration of \<^verbatim>\<open>lexed_token\<close> is in \<^verbatim>\<open>file_parse.h\<close>, which
  is missing. A \<^verbatim>\<open>lexed_token\<close> that the lexer declares and never assigns a lexeme has the
  lexeme \<open>NONE\<close>, as the specification states for a token that matches neither pattern.
\<close>

definition default_lexeme :: lexeme where
  "default_lexeme = NONE"

text \<open>\<^verbatim>\<open>token_defs[key]\<close> for a key of the table.\<close>

definition token_defs_at :: "string \<Rightarrow> lexeme" where
  "token_defs_at key = (case token_defs key of Some l \<Rightarrow> l | None \<Rightarrow> NONE)"

text \<open>The body of the inner loop of \<^verbatim>\<open>lex_tokenized_file\<close> for one raw token.\<close>

definition lex_token :: "string \<Rightarrow> lexed_token" where
  "lex_token raw =
     \<lparr> lex =
         (case token_defs raw of
            Some l \<Rightarrow> l
          | None \<Rightarrow>
              if regex_match raw var_id_regex then token_defs_at var_id_regex_str
              else if regex_match raw var_val_regex then token_defs_at var_val_regex_str
              else default_lexeme),
       raw_token = raw \<rparr>"

fun lex_line :: "string list \<Rightarrow> lexed_token list \<Rightarrow> lexed_token list" where
  "lex_line [] tokens = tokens"
| "lex_line (raw # rest) tokens = lex_line rest (tokens @ [lex_token raw])"

definition new_line_token :: lexed_token where
  "new_line_token = \<lparr> lex = NEW_LINE, raw_token = [CHR 0x0A] \<rparr>"

text \<open>\<^verbatim>\<open>lex_tokenized_file\<close>: the second argument is \<^verbatim>\<open>l_file.tokens\<close> on entry.\<close>

fun lex_tokenized_file :: "tokenized_file \<Rightarrow> lexed_token list \<Rightarrow> lexed_token list" where
  "lex_tokenized_file [] tokens = tokens"
| "lex_tokenized_file (line # rest) tokens =
     lex_tokenized_file rest (lex_line line tokens @ [new_line_token])"

section \<open>Reading the token buffer\<close>

text \<open>
  \<^verbatim>\<open>ltp\<close>, the iterator into \<^verbatim>\<open>l_file.tokens\<close>, is an index into the list of tokens. The
  source never compares it with \<^verbatim>\<open>end()\<close>; a dereference at or after the end of the
  vector is \<open>Raise OutOfBounds\<close> here.
\<close>

definition lex_at :: "lexed_token list \<Rightarrow> nat \<Rightarrow> lexeme result" where
  "lex_at tokens ltp = (if ltp < length tokens then Ok (lex (tokens ! ltp)) else Raise OutOfBounds)"

definition raw_at :: "lexed_token list \<Rightarrow> nat \<Rightarrow> string result" where
  "raw_at tokens ltp =
     (if ltp < length tokens then Ok (raw_token (tokens ! ltp)) else Raise OutOfBounds)"

text \<open>
  \<^verbatim>\<open>next_lt->lex == l1 && second_next_lt->lex == l2\<close>, with \<^verbatim>\<open>next_lt = std::next(ltp, 1)\<close>
  and \<^verbatim>\<open>second_next_lt = std::next(ltp, 2)\<close>: the second token is read only when the first
  comparison holds.
\<close>

definition next_two_are :: "lexed_token list \<Rightarrow> nat \<Rightarrow> lexeme \<Rightarrow> lexeme \<Rightarrow> bool result" where
  "next_two_are tokens ltp l1 l2 =
     bind (lex_at tokens (ltp + 1)) (\<lambda>a.
       if a = l1 then bind (lex_at tokens (ltp + 2)) (\<lambda>b. Ok (b = l2)) else Ok False)"

text \<open>\<^verbatim>\<open>while (ltp->lex != NEW_LINE) ltp++;\<close>\<close>

function skip_to_new_line :: "lexed_token list \<Rightarrow> nat \<Rightarrow> nat result" where
  "skip_to_new_line tokens ltp =
     (if ltp < length tokens
      then (if lex (tokens ! ltp) = NEW_LINE then Ok ltp else skip_to_new_line tokens (Suc ltp))
      else Raise OutOfBounds)"
  by pat_completeness auto
termination
  by (relation "measure (\<lambda>(tokens, ltp). length tokens - ltp)") auto

declare skip_to_new_line.simps [simp del]

lemma skip_to_new_line_bounds:
  "skip_to_new_line tokens ltp = Ok j \<Longrightarrow> ltp \<le> j \<and> j < length tokens"
proof (induction tokens ltp rule: skip_to_new_line.induct)
  case (1 tokens ltp)
  show ?case
  proof (cases "ltp < length tokens \<and> lex (tokens ! ltp) \<noteq> NEW_LINE")
    case True
    with "1.prems" have "skip_to_new_line tokens (Suc ltp) = Ok j"
      by (simp add: skip_to_new_line.simps [of tokens ltp])
    with True "1.IH" show ?thesis by fastforce
  next
    case False
    with "1.prems" show ?thesis
      by (auto simp: skip_to_new_line.simps [of tokens ltp] split: if_splits)
  qed
qed

section \<open>Variable sections\<close>

definition empty_variable :: variable where
  "empty_variable = \<lparr> type_name = [], ident = [], val = [] \<rparr>"

text \<open>
  The loop of \<^verbatim>\<open>parse_var_section\<close>; the two overloads of the source (experiment file and
  build file) have the same body. The result is the position of the \<^verbatim>\<open>END_MARKER\<close> and
  \<^verbatim>\<open>curr_section\<close>.
\<close>

function var_section_loop ::
  "lexed_token list \<Rightarrow> nat \<Rightarrow> parsed_var_section \<Rightarrow> (nat \<times> parsed_var_section) result" where
  "var_section_loop tokens ltp curr_section =
     (if ltp < length tokens then
        (if lex (tokens ! ltp) = END_MARKER then Ok (ltp, curr_section)
         else if lex (tokens ! ltp) = TYPE_NAME then
           (if ltp + 1 < length tokens then
              (if lex (tokens ! (ltp + 1)) = VAR_IDENTIFIER then
                 (if ltp + 2 < length tokens then
                    (if lex (tokens ! (ltp + 2)) = VAR_VALUE then
                       var_section_loop tokens (ltp + 3)
                         (curr_section\<lparr> param_map := (param_map curr_section)
                            (raw_token (tokens ! (ltp + 1)) \<mapsto>
                               \<lparr> type_name = raw_token (tokens ! ltp),
                                 ident = raw_token (tokens ! (ltp + 1)),
                                 val = raw_token (tokens ! (ltp + 2)) \<rparr>) \<rparr>)
                     else var_section_loop tokens (ltp + 1) curr_section)
                  else Raise OutOfBounds)
               else var_section_loop tokens (ltp + 1) curr_section)
            else Raise OutOfBounds)
         else if lex (tokens ! ltp) = SINGLE_COMMENT then
           (case skip_to_new_line tokens ltp of
              Ok j \<Rightarrow> var_section_loop tokens (j + 1) curr_section
            | Raise e \<Rightarrow> Raise e
            | Timeout \<Rightarrow> Timeout)
         else var_section_loop tokens (ltp + 1) curr_section)
      else Raise OutOfBounds)"
  by pat_completeness auto
termination
  by (relation "measure (\<lambda>(tokens, ltp, curr_section). length tokens - ltp)")
     (auto dest: skip_to_new_line_bounds)

declare var_section_loop.simps [simp del]

text \<open>\<^verbatim>\<open>parse_var_section\<close> for an experiment file.\<close>

definition parse_var_section ::
  "nat \<times> lexed_token list \<times> parsed_expt_file \<Rightarrow> string
     \<Rightarrow> (nat \<times> lexed_token list \<times> parsed_expt_file) result" where
  "parse_var_section st region_type =
     (case st of (ltp, tokens, e_file) \<Rightarrow>
        bind (var_section_loop tokens ltp \<lparr> param_map = Map.empty \<rparr>) (\<lambda>(ltp', curr_section).
          Ok (ltp', tokens,
              e_file\<lparr> parsed_var_sections :=
                (parsed_var_sections e_file)(region_type \<mapsto> curr_section) \<rparr>)))"

text \<open>\<^verbatim>\<open>parse_var_section\<close> for a build file.\<close>

definition parse_var_section_build ::
  "nat \<times> lexed_token list \<times> parsed_build_file \<Rightarrow> string
     \<Rightarrow> (nat \<times> lexed_token list \<times> parsed_build_file) result" where
  "parse_var_section_build st region_type =
     (case st of (ltp, tokens, b_file) \<Rightarrow>
        bind (var_section_loop tokens ltp \<lparr> param_map = Map.empty \<rparr>) (\<lambda>(ltp', curr_section).
          Ok (ltp', tokens,
              b_file\<lparr> build_var_sections :=
                (build_var_sections b_file)(region_type \<mapsto> curr_section) \<rparr>)))"

section \<open>Definitions of trials, blocks, sessions and the experiment\<close>

text \<open>
  The state of \<^verbatim>\<open>parse_def\<close>: the position \<^verbatim>\<open>ltp\<close>, the token vector (which the function
  changes), the file under construction and the local variables.
\<close>

record def_state =
  d_ltp :: nat
  d_tokens :: "lexed_token list"
  d_e_file :: parsed_expt_file
  curr_pair :: pair
  curr_trial :: "string \<rightharpoonup> variable"
  curr_block :: "pair list"
  curr_session :: "pair list"
  prev_lex :: lexeme
  curr_var :: variable

definition shadow_token :: lexed_token where
  "shadow_token = \<lparr> lex = VAR_VALUE, raw_token = ''1'' \<rparr>"

text \<open>
  The three \<^verbatim>\<open>push_back\<close> branches on \<^verbatim>\<open>def_type\<close>; the experiment's pairs go straight
  into the file.
\<close>

definition push_pair :: "string \<Rightarrow> pair \<Rightarrow> def_state \<Rightarrow> def_state" where
  "push_pair def_type p st =
     (if def_type = ''block'' then st\<lparr> curr_block := curr_block st @ [p] \<rparr>
      else if def_type = ''session'' then st\<lparr> curr_session := curr_session st @ [p] \<rparr>
      else if def_type = ''experiment'' then
        st\<lparr> d_e_file := (d_e_file st)\<lparr> parsed_trial_info :=
              (parsed_trial_info (d_e_file st))\<lparr> experiment_pairs :=
                 experiment_pairs (parsed_trial_info (d_e_file st)) @ [p] \<rparr> \<rparr> \<rparr>
      else st)"

text \<open>
  The \<^verbatim>\<open>switch\<close> on the lexeme of the current token. For an identifier in a block, session
  or experiment that finds an identifier pending, a token \<^verbatim>\<open>{VAR_VALUE, "1"}\<close> is inserted
  before the current token and \<^verbatim>\<open>ltp\<close> is put on the token before the inserted one.
\<close>

definition def_switch :: "string \<Rightarrow> lexed_token \<Rightarrow> def_state \<Rightarrow> def_state result" where
  "def_switch def_type tok st =
     (if lex tok = TYPE_NAME then
        Ok (if def_type = ''trial''
            then st\<lparr> curr_var := (curr_var st)\<lparr> type_name := raw_token tok \<rparr> \<rparr>
            else st)
      else if lex tok = VAR_IDENTIFIER then
        (if def_type = ''trial'' then
           Ok (if prev_lex st \<noteq> TYPE_NAME then st
               else st\<lparr> curr_var := (curr_var st)\<lparr> ident := raw_token tok \<rparr> \<rparr>)
         else if fst (curr_pair st) \<noteq> [] then
           (if d_ltp st = 0 then Raise OutOfBounds
            else Ok (st\<lparr> d_tokens :=
                          take (d_ltp st) (d_tokens st) @ shadow_token # drop (d_ltp st) (d_tokens st),
                        d_ltp := d_ltp st - 1 \<rparr>))
         else Ok (st\<lparr> curr_pair := (raw_token tok, snd (curr_pair st)) \<rparr>))
      else if lex tok = VAR_VALUE then
        (if prev_lex st \<noteq> VAR_IDENTIFIER \<and> prev_lex st \<noteq> NEW_LINE then Ok st
         else if def_type = ''trial'' then
           Ok (st\<lparr> curr_trial := (curr_trial st)
                      (ident (curr_var st) \<mapsto> (curr_var st)\<lparr> val := raw_token tok \<rparr>),
                    curr_var := empty_variable \<rparr>)
         else
           Ok ((push_pair def_type (fst (curr_pair st), raw_token tok) st)
                 \<lparr> curr_pair := ([], []) \<rparr>))
      else if lex tok = SINGLE_COMMENT then
        bind (skip_to_new_line (d_tokens st) (d_ltp st)) (\<lambda>j. Ok (st\<lparr> d_ltp := j \<rparr>))
      else Ok st)"

text \<open>
  The test at the end of the loop body, which closes a pending identifier in front of
  the \<^verbatim>\<open>END_MARKER\<close> with the count \<^verbatim>\<open>"1"\<close>.
\<close>

definition close_pending :: "string \<Rightarrow> def_state \<Rightarrow> def_state result" where
  "close_pending def_type st =
     bind (lex_at (d_tokens st) (d_ltp st)) (\<lambda>l.
       Ok (if l = END_MARKER \<and> def_type \<noteq> ''trial''
              \<and> fst (curr_pair st) \<noteq> [] \<and> snd (curr_pair st) = []
           then push_pair def_type (fst (curr_pair st), ''1'')
                  (st\<lparr> curr_pair := (fst (curr_pair st), ''1'') \<rparr>)
           else st))"

text \<open>What follows the \<^verbatim>\<open>switch\<close> in the loop body: \<^verbatim>\<open>prev_lex = ltp->lex; ltp++;\<close> and the test.\<close>

definition def_advance :: "string \<Rightarrow> def_state \<Rightarrow> def_state result" where
  "def_advance def_type st =
     bind (lex_at (d_tokens st) (d_ltp st)) (\<lambda>l.
       close_pending def_type (st\<lparr> prev_lex := l, d_ltp := d_ltp st + 1 \<rparr>))"

definition def_step :: "string \<Rightarrow> def_state \<Rightarrow> def_state result" where
  "def_step def_type st =
     (if d_ltp st < length (d_tokens st)
      then bind (def_switch def_type (d_tokens st ! d_ltp st) st) (def_advance def_type)
      else Raise OutOfBounds)"

text \<open>
  \<^verbatim>\<open>while (ltp->lex != END_MARKER)\<close>: the first argument bounds the number of iterations,
  which the source does not.
\<close>

fun parse_def_loop :: "nat \<Rightarrow> string \<Rightarrow> def_state \<Rightarrow> def_state result" where
  "parse_def_loop 0 def_type st = Timeout"
| "parse_def_loop (Suc fuel) def_type st =
     bind (lex_at (d_tokens st) (d_ltp st)) (\<lambda>l.
       if l = END_MARKER then Ok st
       else bind (def_step def_type st) (parse_def_loop fuel def_type))"

text \<open>The assignments after the loop.\<close>

definition store_def :: "string \<Rightarrow> string \<Rightarrow> def_state \<Rightarrow> parsed_expt_file" where
  "store_def def_type def_label st =
     (let e_file = d_e_file st; info = parsed_trial_info e_file
      in if def_type = ''trial'' then
           e_file\<lparr> parsed_trial_info :=
             info\<lparr> trial_map := (trial_map info)(def_label \<mapsto> curr_trial st) \<rparr> \<rparr>
         else if def_type = ''block'' then
           e_file\<lparr> parsed_trial_info :=
             info\<lparr> block_map := (block_map info)(def_label \<mapsto> curr_block st) \<rparr> \<rparr>
         else if def_type = ''session'' then
           e_file\<lparr> parsed_trial_info :=
             info\<lparr> session_map := (session_map info)(def_label \<mapsto> curr_session st) \<rparr> \<rparr>
         else e_file)"

definition init_def_state :: "nat \<Rightarrow> lexed_token list \<Rightarrow> parsed_expt_file \<Rightarrow> def_state" where
  "init_def_state ltp tokens e_file =
     \<lparr> d_ltp = ltp, d_tokens = tokens, d_e_file = e_file, curr_pair = ([], []),
       curr_trial = Map.empty, curr_block = [], curr_session = [], prev_lex = NONE,
       curr_var = empty_variable \<rparr>"

definition parse_def ::
  "nat \<Rightarrow> nat \<times> lexed_token list \<times> parsed_expt_file \<Rightarrow> string \<Rightarrow> string
     \<Rightarrow> (nat \<times> lexed_token list \<times> parsed_expt_file) result" where
  "parse_def fuel st def_type def_label =
     (case st of (ltp, tokens, e_file) \<Rightarrow>
        bind (parse_def_loop fuel def_type (init_def_state ltp tokens e_file)) (\<lambda>st'.
          Ok (d_ltp st', d_tokens st', store_def def_type def_label st')))"

section \<open>The trial section and the regions of an experiment file\<close>

type_synonym expt_state = "nat \<times> lexed_token list \<times> parsed_expt_file"

text \<open>
  \<^verbatim>\<open>parse_trial_section\<close>. After \<^verbatim>\<open>def\<close>, a definition type and a label, \<^verbatim>\<open>ltp += 4\<close>
  passes these three tokens and the one after them. The budget bounds the iterations and
  is handed to \<^verbatim>\<open>parse_def\<close>.
\<close>

fun parse_trial_section :: "nat \<Rightarrow> expt_state \<Rightarrow> expt_state result" where
  "parse_trial_section 0 st = Timeout"
| "parse_trial_section (Suc fuel) (ltp, tokens, e_file) =
     bind (lex_at tokens ltp) (\<lambda>l.
       if l = END_MARKER then Ok (ltp, tokens, e_file)
       else if l = DEF then
         bind (next_two_are tokens ltp DEF_TYPE VAR_IDENTIFIER) (\<lambda>is_def.
           if is_def then
             bind (parse_def fuel (ltp + 4, tokens, e_file)
                     (raw_token (tokens ! (ltp + 1))) (raw_token (tokens ! (ltp + 2))))
               (\<lambda>(ltp', tokens', e_file'). parse_trial_section fuel (ltp' + 1, tokens', e_file'))
           else parse_trial_section fuel (ltp + 1, tokens, e_file))
       else if l = SINGLE_COMMENT then
         bind (skip_to_new_line tokens ltp) (\<lambda>j. parse_trial_section fuel (j + 1, tokens, e_file))
       else parse_trial_section fuel (ltp + 1, tokens, e_file))"

text \<open>
  \<^verbatim>\<open>parse_region\<close> for an experiment file, and the loop of its last branch, which calls it
  for every nested region.
\<close>

fun parse_region :: "nat \<Rightarrow> expt_state \<Rightarrow> string \<Rightarrow> expt_state result"
  and region_loop :: "nat \<Rightarrow> expt_state \<Rightarrow> expt_state result" where
  "parse_region fuel st region_type =
     (if region_type = ''mf_input'' \<or> region_type = ''activity'' \<or> region_type = ''trial_spec''
      then parse_var_section st region_type
      else if region_type = ''trial_def'' then parse_trial_section fuel st
      else region_loop fuel st)"
| "region_loop 0 st = Timeout"
| "region_loop (Suc fuel) (ltp, tokens, e_file) =
     bind (lex_at tokens ltp) (\<lambda>l.
       if l = END_MARKER then Ok (ltp, tokens, e_file)
       else if l = BEGIN_MARKER then
         bind (next_two_are tokens ltp REGION REGION_TYPE) (\<lambda>is_region.
           if is_region then
             bind (parse_region fuel (ltp + 4, tokens, e_file) (raw_token (tokens ! (ltp + 2))))
               (\<lambda>(ltp', tokens', e_file'). region_loop fuel (ltp' + 1, tokens', e_file'))
           else region_loop fuel (ltp + 1, tokens, e_file))
       else if l = SINGLE_COMMENT then
         bind (skip_to_new_line tokens ltp) (\<lambda>j. region_loop fuel (j + 1, tokens, e_file))
       else region_loop fuel (ltp + 1, tokens, e_file))"

section \<open>The header of a file\<close>

text \<open>
  The first loop of \<^verbatim>\<open>parse_lexed_expt_file\<close> and of \<^verbatim>\<open>parse_lexed_build_file\<close>: comments
  and new lines are passed, any other token in front of the first \<^verbatim>\<open>BEGIN_MARKER\<close> is
  \<^verbatim>\<open>exit(1)\<close>.
\<close>

function first_begin :: "lexed_token list \<Rightarrow> nat \<Rightarrow> nat result" where
  "first_begin tokens ltp =
     (if ltp < length tokens then
        (if lex (tokens ! ltp) = BEGIN_MARKER then Ok ltp
         else if lex (tokens ! ltp) = SINGLE_COMMENT then
           (case skip_to_new_line tokens ltp of
              Ok j \<Rightarrow> first_begin tokens (j + 1)
            | Raise e \<Rightarrow> Raise e
            | Timeout \<Rightarrow> Timeout)
         else if lex (tokens ! ltp) \<noteq> NEW_LINE then Raise (Exit 1)
         else first_begin tokens (ltp + 1))
      else Raise OutOfBounds)"
  by pat_completeness auto
termination
  by (relation "measure (\<lambda>(tokens, ltp). length tokens - ltp)")
     (auto dest: skip_to_new_line_bounds)

declare first_begin.simps [simp del]

text \<open>
  The test of the two tokens after the first \<^verbatim>\<open>BEGIN_MARKER\<close>, for the file type \<open>kind\<close>
  (\<^verbatim>\<open>"run"\<close> or \<^verbatim>\<open>"build"\<close>). The result is the region type handed to \<^verbatim>\<open>parse_region\<close>.
\<close>

definition check_filetype :: "lexed_token list \<Rightarrow> nat \<Rightarrow> string \<Rightarrow> string result" where
  "check_filetype tokens ltp kind =
     bind (lex_at tokens (ltp + 1)) (\<lambda>l.
       if l = REGION then
         bind (raw_at tokens (ltp + 1)) (\<lambda>region.
           if region \<noteq> ''filetype'' then Raise (Exit 2)
           else bind (raw_at tokens (ltp + 2)) (\<lambda>region_type.
             if region_type \<noteq> kind then Raise (Exit 3) else Ok region_type))
       else Raise (Exit 4))"

definition parse_lexed_expt_file ::
  "nat \<Rightarrow> lexed_token list \<Rightarrow> parsed_expt_file
     \<Rightarrow> (lexed_token list \<times> parsed_expt_file) result" where
  "parse_lexed_expt_file fuel tokens e_file =
     bind (first_begin tokens 0) (\<lambda>ltp.
       bind (check_filetype tokens ltp ''run'') (\<lambda>region_type.
         bind (parse_region fuel (ltp + 4, tokens, e_file) region_type)
           (\<lambda>(ltp', tokens', e_file'). Ok (tokens', e_file'))))"

section \<open>Build files\<close>

type_synonym build_state = "nat \<times> lexed_token list \<times> parsed_build_file"

fun parse_region_build :: "nat \<Rightarrow> build_state \<Rightarrow> string \<Rightarrow> build_state result"
  and region_loop_build :: "nat \<Rightarrow> build_state \<Rightarrow> build_state result" where
  "parse_region_build fuel st region_type =
     (if region_type = ''connectivity'' then parse_var_section_build st region_type
      else if region_type = ''activity'' then parse_var_section_build st region_type
      else region_loop_build fuel st)"
| "region_loop_build 0 st = Timeout"
| "region_loop_build (Suc fuel) (ltp, tokens, b_file) =
     bind (lex_at tokens ltp) (\<lambda>l.
       if l = END_MARKER then Ok (ltp, tokens, b_file)
       else if l = BEGIN_MARKER then
         bind (next_two_are tokens ltp REGION REGION_TYPE) (\<lambda>is_region.
           if is_region then
             bind (parse_region_build fuel (ltp + 4, tokens, b_file)
                     (raw_token (tokens ! (ltp + 2))))
               (\<lambda>(ltp', tokens', b_file'). region_loop_build fuel (ltp' + 1, tokens', b_file'))
           else region_loop_build fuel (ltp + 1, tokens, b_file))
       else if l = SINGLE_COMMENT then
         bind (skip_to_new_line tokens ltp) (\<lambda>j. region_loop_build fuel (j + 1, tokens, b_file))
       else region_loop_build fuel (ltp + 1, tokens, b_file))"

definition parse_lexed_build_file ::
  "nat \<Rightarrow> lexed_token list \<Rightarrow> parsed_build_file
     \<Rightarrow> (lexed_token list \<times> parsed_build_file) result" where
  "parse_lexed_build_file fuel tokens b_file =
     bind (first_begin tokens 0) (\<lambda>ltp.
       bind (check_filetype tokens ltp ''build'') (\<lambda>region_type.
         bind (parse_region_build fuel (ltp + 4, tokens, b_file) region_type)
           (\<lambda>(ltp', tokens', b_file'). Ok (tokens', b_file'))))"

section \<open>The table of trials\<close>

text \<open>
  \<^verbatim>\<open>trials_data\<close>: the arrays are lists. The elements of \<^verbatim>\<open>cs_percents\<close> are \<^verbatim>\<open>float\<close>s in
  the source; their type is a parameter here, with \<open>0\<close> for the value \<^verbatim>\<open>calloc\<close> leaves.
\<close>

record 'f trials_data =
  num_trials :: ct_uint32_t
  trial_names :: "string list"
  use_pfpc_plasts :: "ct_uint32_t list"
  use_mfnc_plasts :: "ct_uint32_t list"
  use_css :: "ct_uint32_t list"
  cs_onsets :: "ct_uint32_t list"
  cs_lens :: "ct_uint32_t list"
  cs_percents :: "'f list"
  use_uss :: "ct_uint32_t list"
  us_onsets :: "ct_uint32_t list"

text \<open>\<^verbatim>\<open>allocate_trials_data\<close>: every array gets \<^verbatim>\<open>num_trials\<close> zeroed elements.\<close>

definition allocate_trials_data ::
  "('f::zero) trials_data \<Rightarrow> ct_uint32_t \<Rightarrow> 'f trials_data" where
  "allocate_trials_data td n =
     td\<lparr> trial_names := replicate (unat n) [],
         use_pfpc_plasts := replicate (unat n) 0,
         use_mfnc_plasts := replicate (unat n) 0,
         use_css := replicate (unat n) 0,
         cs_onsets := replicate (unat n) 0,
         cs_lens := replicate (unat n) 0,
         cs_percents := replicate (unat n) 0,
         use_uss := replicate (unat n) 0,
         us_onsets := replicate (unat n) 0 \<rparr>"

text \<open>
  \<^verbatim>\<open>std::find(td.trial_names, td.trial_names + td.num_trials, "")\<close> as an index; the list
  of names has \<^verbatim>\<open>td.num_trials\<close> elements, and the result is its length when no name is
  empty.
\<close>

definition find_empty :: "string list \<Rightarrow> nat" where
  "find_empty names = length (takeWhile (\<lambda>name. name \<noteq> []) names)"

text \<open>
  \<^verbatim>\<open>while (first_empty != initial_empty + this_num_trials)\<close>: the loop writes
  \<^verbatim>\<open>this_num_trials\<close> names from \<^verbatim>\<open>first_empty\<close> on and does not look at the end of the
  array.
\<close>

fun write_names :: "string list \<Rightarrow> nat \<Rightarrow> nat \<Rightarrow> string \<Rightarrow> string list result" where
  "write_names names first_empty 0 name = Ok names"
| "write_names names first_empty (Suc k) name =
     (if first_empty < length names
      then write_names (names[first_empty := name]) (Suc first_empty) k name
      else Raise OutOfBounds)"

text \<open>A \<^verbatim>\<open>for\<close> loop that runs its body \<open>k\<close> times.\<close>

fun repeat_body :: "nat \<Rightarrow> ('a \<Rightarrow> 'a result) \<Rightarrow> 'a \<Rightarrow> 'a result" where
  "repeat_body 0 body x = Ok x"
| "repeat_body (Suc k) body x = bind (body x) (repeat_body k body)"

text \<open>
  The body of the outer loop of \<^verbatim>\<open>initialize_trial_names_helper\<close> for one pair; \<open>rec\<close> is
  the recursive call. In the second branch the count is read by the loop condition
  \<^verbatim>\<open>i < std::stoi(vec_pair.second)\<close>, an unsigned comparison, before the first iteration and
  after each one.
\<close>

definition names_pair ::
  "(pair list \<Rightarrow> string list \<Rightarrow> string list result) \<Rightarrow> parsed_trial_section \<Rightarrow> pair
     \<Rightarrow> string list \<Rightarrow> string list result" where
  "names_pair rec pt_section vec_pair names =
     (if trial_map pt_section (fst vec_pair) \<noteq> None then
        (if find_empty names \<noteq> length names then
           bind (stoi_u32 (snd vec_pair)) (\<lambda>this_num_trials.
             write_names names (find_empty names) (unat this_num_trials) (fst vec_pair))
         else Ok names)
      else
        bind (stoi_u32 (snd vec_pair)) (\<lambda>n.
          repeat_body (unat n)
            (\<lambda>names'.
               case block_map pt_section (fst vec_pair) of
                 Some v \<Rightarrow> rec v names'
               | None \<Rightarrow>
                  (case session_map pt_section (fst vec_pair) of
                     Some v \<Rightarrow> rec v names'
                   | None \<Rightarrow> Ok names'))
            names))"

fun names_loop ::
  "(pair \<Rightarrow> string list \<Rightarrow> string list result) \<Rightarrow> pair list \<Rightarrow> string list
     \<Rightarrow> string list result" where
  "names_loop body [] names = Ok names"
| "names_loop body (vec_pair # rest) names = bind (body vec_pair names) (names_loop body rest)"

text \<open>
  \<^verbatim>\<open>initialize_trial_names_helper\<close> on the array \<^verbatim>\<open>td.trial_names\<close>; the first argument
  bounds the depth of the recursion.
\<close>

fun initialize_trial_names_helper ::
  "nat \<Rightarrow> parsed_trial_section \<Rightarrow> pair list \<Rightarrow> string list \<Rightarrow> string list result" where
  "initialize_trial_names_helper 0 pt_section in_vec names = Timeout"
| "initialize_trial_names_helper (Suc depth) pt_section in_vec names =
     names_loop (names_pair (initialize_trial_names_helper depth pt_section) pt_section)
       in_vec names"

text \<open>
  \<^verbatim>\<open>pt_section.trial_map[name][field].value\<close>: \<^verbatim>\<open>operator[]\<close> adds an empty entry for a
  key that is missing, whose value is the empty string. (The entry it adds to the map is
  not kept here: \<^verbatim>\<open>std::stoi("")\<close> throws right after.)
\<close>

definition field_value :: "parsed_trial_section \<Rightarrow> string \<Rightarrow> string \<Rightarrow> string" where
  "field_value pt_section name field =
     (case trial_map pt_section name of
        None \<Rightarrow> []
      | Some trial \<Rightarrow> (case trial field of None \<Rightarrow> [] | Some v \<Rightarrow> val v))"

text \<open>
  The body of the loop of \<^verbatim>\<open>initialize_trials_data\<close> for the index \<open>i\<close>. \<open>stof\<close> stands
  for \<^verbatim>\<open>std::stof\<close>.
\<close>

definition set_trial ::
  "(string \<Rightarrow> 'f result) \<Rightarrow> parsed_trial_section \<Rightarrow> nat \<Rightarrow> 'f trials_data
     \<Rightarrow> 'f trials_data result" where
  "set_trial stof pt_section i td =
     (if i < length (trial_names td) then
        bind (stoi_u32 (field_value pt_section (trial_names td ! i) ''use_cs'')) (\<lambda>v1.
        bind (stoi_u32 (field_value pt_section (trial_names td ! i) ''use_pfpc_plast'')) (\<lambda>v2.
        bind (stoi_u32 (field_value pt_section (trial_names td ! i) ''use_mfnc_plast'')) (\<lambda>v3.
        bind (stoi_u32 (field_value pt_section (trial_names td ! i) ''cs_onset'')) (\<lambda>v4.
        bind (stoi_u32 (field_value pt_section (trial_names td ! i) ''cs_len'')) (\<lambda>v5.
        bind (stof (field_value pt_section (trial_names td ! i) ''cs_percent'')) (\<lambda>v6.
        bind (stoi_u32 (field_value pt_section (trial_names td ! i) ''use_us'')) (\<lambda>v7.
        bind (stoi_u32 (field_value pt_section (trial_names td ! i) ''us_onset'')) (\<lambda>v8.
          Ok (td\<lparr> use_css := (use_css td)[i := v1],
                  use_pfpc_plasts := (use_pfpc_plasts td)[i := v2],
                  use_mfnc_plasts := (use_mfnc_plasts td)[i := v3],
                  cs_onsets := (cs_onsets td)[i := v4],
                  cs_lens := (cs_lens td)[i := v5],
                  cs_percents := (cs_percents td)[i := v6],
                  use_uss := (use_uss td)[i := v7],
                  us_onsets := (us_onsets td)[i := v8] \<rparr>)))))))))
      else Raise OutOfBounds)"

fun set_trials ::
  "(string \<Rightarrow> 'f result) \<Rightarrow> parsed_trial_section \<Rightarrow> nat list \<Rightarrow> 'f trials_data
     \<Rightarrow> 'f trials_data result" where
  "set_trials stof pt_section [] td = Ok td"
| "set_trials stof pt_section (i # rest) td =
     bind (set_trial stof pt_section i td) (set_trials stof pt_section rest)"

definition initialize_trials_data ::
  "nat \<Rightarrow> (string \<Rightarrow> 'f result) \<Rightarrow> 'f trials_data \<Rightarrow> parsed_trial_section
     \<Rightarrow> 'f trials_data result" where
  "initialize_trials_data depth stof td pt_section =
     bind (initialize_trial_names_helper depth pt_section (experiment_pairs pt_section)
             (trial_names td))
       (\<lambda>names.
          set_trials stof pt_section [0 ..< unat (num_trials td)] (td\<lparr> trial_names := names \<rparr>))"

definition translate_parsed_trials ::
  "nat \<Rightarrow> (string \<Rightarrow> ('f::zero) result) \<Rightarrow> parsed_expt_file \<Rightarrow> 'f trials_data
     \<Rightarrow> 'f trials_data result" where
  "translate_parsed_trials depth stof pe_file td =
     bind (calculate_num_trials depth (parsed_trial_info pe_file)) (\<lambda>n.
       initialize_trials_data depth stof
         (allocate_trials_data (td\<lparr> num_trials := n \<rparr>) n) (parsed_trial_info pe_file))"

section \<open>The composition rule of the trial count, as the specification words it\<close>

text \<open>
  The list a label refers to: a session if the label names one, else a block if it names
  one, else nothing (a trial, or a label without a definition).
\<close>

definition referenced :: "parsed_trial_section \<Rightarrow> string \<Rightarrow> pair list option" where
  "referenced pt_section label =
     (case session_map pt_section label of
        Some v \<Rightarrow> Some v
      | None \<Rightarrow> block_map pt_section label)"

text \<open>The sum of the terms of one level, the first failure in the order of the pairs winning.\<close>

fun sum_results :: "ct_uint32_t result list \<Rightarrow> ct_uint32_t result" where
  "sum_results [] = Ok 0"
| "sum_results (r # rs) = bind r (\<lambda>x. bind (sum_results rs) (\<lambda>s. Ok (x + s)))"

text \<open>
  The term of one pair: its count times the total of the list it refers to, or its count
  alone.
\<close>

definition pair_total ::
  "(pair list \<Rightarrow> ct_uint32_t result) \<Rightarrow> parsed_trial_section \<Rightarrow> pair \<Rightarrow> ct_uint32_t result" where
  "pair_total sub_total pt_section p =
     bind (stoi_u32 (snd p)) (\<lambda>count.
       case referenced pt_section (fst p) of
         Some sub \<Rightarrow> bind (sub_total sub) (\<lambda>t. Ok (count * t))
       | None \<Rightarrow> Ok count)"

fun level_total :: "nat \<Rightarrow> parsed_trial_section \<Rightarrow> pair list \<Rightarrow> ct_uint32_t result" where
  "level_total 0 pt_section level = Timeout"
| "level_total (Suc depth) pt_section level =
     sum_results (map (pair_total (level_total depth pt_section) pt_section) level)"

text \<open>The hierarchy of the specification's example: \<open>A\<close> and \<open>C\<close> are trials, \<open>B\<close> is a block.\<close>

definition example_hierarchy :: parsed_trial_section where
  "example_hierarchy =
     \<lparr> trial_map = [''A'' \<mapsto> Map.empty, ''C'' \<mapsto> Map.empty],
       block_map = [''B'' \<mapsto> [(''C'', ''4'')]],
       session_map = Map.empty,
       experiment_pairs = [(''A'', ''2''), (''B'', ''3'')] \<rparr>"

section \<open>The keywords of the lexer\<close>

text \<open>
  The keys of \<^verbatim>\<open>token_defs\<close> without the two pattern strings, which the table holds to
  name the lexemes of identifiers and values.
\<close>

definition keyword_table :: "string list" where
  "keyword_table =
     filter (\<lambda>k. k \<noteq> var_id_regex_str \<and> k \<noteq> var_val_regex_str) (map fst token_defs_list)"

section \<open>Objects of the examples\<close>

definition empty_expt_file :: parsed_expt_file where
  "empty_expt_file =
     \<lparr> parsed_var_sections = Map.empty,
       parsed_trial_info =
         \<lparr> trial_map = Map.empty, block_map = Map.empty, session_map = Map.empty,
           experiment_pairs = [] \<rparr> \<rparr>"

definition empty_build_file :: parsed_build_file where
  "empty_build_file = \<lparr> build_var_sections = Map.empty \<rparr>"

text \<open>A hierarchy whose experiment names a label that nothing defines.\<close>

definition ghost_hierarchy :: parsed_trial_section where
  "ghost_hierarchy =
     \<lparr> trial_map = Map.empty, block_map = Map.empty, session_map = Map.empty,
       experiment_pairs = [(''ghost'', ''2'')] \<rparr>"

text \<open>A label with no entry in \<^verbatim>\<open>trial_map\<close>, \<^verbatim>\<open>block_map\<close> or \<^verbatim>\<open>session_map\<close>.\<close>

definition unresolved :: "parsed_trial_section \<Rightarrow> string \<Rightarrow> bool" where
  "unresolved pt_section label =
     (trial_map pt_section label = None \<and> block_map pt_section label = None
      \<and> session_map pt_section label = None)"

text \<open>
  The header the specification asks for, at the position \<open>ltp\<close>: a \<^verbatim>\<open>BEGIN_MARKER\<close>, the
  region \<^verbatim>\<open>filetype\<close> and the region type \<open>kind\<close>.
\<close>

definition filetype_header :: "lexed_token list \<Rightarrow> nat \<Rightarrow> string \<Rightarrow> bool" where
  "filetype_header tokens ltp kind =
     (ltp + 2 < length tokens \<and> lex (tokens ! ltp) = BEGIN_MARKER
      \<and> lex (tokens ! (ltp + 1)) = REGION \<and> raw_token (tokens ! (ltp + 1)) = ''filetype''
      \<and> raw_token (tokens ! (ltp + 2)) = kind)"

text \<open>
  Three lexed documents: the header of a build file, a header after a stray token, and
  the same after a comment and a blank line.
\<close>

definition build_header :: "lexed_token list" where
  "build_header = lex_tokenized_file [[''begin'', ''filetype'', ''build'']] []"

definition stray_header :: "lexed_token list" where
  "stray_header = lex_tokenized_file [[''run''], [''begin'', ''filetype'', ''run'']] []"

definition noted_header :: "lexed_token list" where
  "noted_header = lex_tokenized_file
     [[''//'', ''notes''], [], [''run''], [''begin'', ''filetype'', ''run'']] []"

section \<open>From the text of a file to the table of trials\<close>

text \<open>
  The callers of the functions above are not among the sources at hand. The two
  definitions below run them in the order of their data flow, from the content of an
  experiment file: \<^verbatim>\<open>tokenize_file\<close>, \<^verbatim>\<open>lex_tokenized_file\<close> and
  \<^verbatim>\<open>parse_lexed_expt_file\<close> on empty objects, then \<^verbatim>\<open>translate_parsed_trials\<close>.
\<close>

definition empty_trials_data :: "('f::zero) trials_data" where
  "empty_trials_data = \<lparr> num_trials = 0, trial_names = [], use_pfpc_plasts = [], use_mfnc_plasts = [],
      use_css = [], cs_onsets = [], cs_lens = [], cs_percents = [], use_uss = [], us_onsets = [] \<rparr>"

definition parse_file :: "nat \<Rightarrow> string \<Rightarrow> (lexed_token list \<times> parsed_expt_file) result" where
  "parse_file fuel content =
     bind (tokenize_file (Some content) []) (\<lambda>t_file.
       parse_lexed_expt_file fuel (lex_tokenized_file t_file []) empty_expt_file)"

definition resolve_file :: "nat \<Rightarrow> (string \<Rightarrow> ('f::zero) result) \<Rightarrow> string \<Rightarrow> 'f trials_data result" where
  "resolve_file fuel stof content =
     bind (parse_file fuel content) (\<lambda>(tokens, e_file).
         translate_parsed_trials fuel stof e_file empty_trials_data)"

text \<open>The lines of a text file, each ended by a new line character.\<close>

definition unlines :: "string list \<Rightarrow> string" where
  "unlines ls = concat (map (\<lambda>l. l @ [CHR 0x0A]) ls)"

text \<open>
  An experiment file with the trial of the specification's example, its eight fields one
  to a line, and an experiment that has a label of its own.
\<close>

definition example_file :: string where
  "example_file = unlines
    [''begin filetype run'',
     ''begin section trial_def'',
     ''def trial t1'',
     ''int use_cs 1'',
     ''int use_pfpc_plast 0'',
     ''int use_mfnc_plast 0'',
     ''int cs_onset 100'',
     ''int cs_len 500'',
     ''float cs_percent 0.5'',
     ''int use_us 1'',
     ''int us_onset 1400'',
     ''end'',
     ''def experiment e1'',
     ''t1 5'',
     ''end'',
     ''end'',
     ''end'']"

text \<open>
  The same trial, and the experiment as the specification's example writes it: the
  definition type is followed by the reference \<^verbatim>\<open>t1 5\<close>, without a label.
\<close>

definition example_as_written :: string where
  "example_as_written = unlines
    [''begin filetype run'',
     ''begin section trial_def'',
     ''def trial t1'',
     ''int use_cs 1'',
     ''int use_pfpc_plast 0'',
     ''int use_mfnc_plast 0'',
     ''int cs_onset 100'',
     ''int cs_len 500'',
     ''float cs_percent 0.5'',
     ''int use_us 1'',
     ''int us_onset 1400'',
     ''end'',
     ''def experiment  t1 5 end'',
     ''end'',
     ''end'']"

text \<open>The same once more, with the experiment on three lines.\<close>

definition example_on_lines :: string where
  "example_on_lines = unlines
    [''begin filetype run'',
     ''begin section trial_def'',
     ''def trial t1'',
     ''int use_cs 1'',
     ''int use_pfpc_plast 0'',
     ''int use_mfnc_plast 0'',
     ''int cs_onset 100'',
     ''int cs_len 500'',
     ''float cs_percent 0.5'',
     ''int use_us 1'',
     ''int us_onset 1400'',
     ''end'',
     ''def experiment'',
     ''t1 5'',
     ''end'',
     ''end'',
     ''end'']"

text \<open>A stand-in for \<^verbatim>\<open>std::stof\<close> that converts the one literal of the example.\<close>

definition stof_half :: "string \<Rightarrow> real result" where
  "stof_half str = (if str = ''0.5'' then Ok (1 / 2) else Raise InvalidArgument)"

text \<open>The fields that \<^verbatim>\<open>initialize_trials_data\<close> reads, in its order.\<close>

definition trial_fields :: "string list" where
  "trial_fields = [''use_cs'', ''use_pfpc_plast'', ''use_mfnc_plast'', ''cs_onset'', ''cs_len'',
     ''cs_percent'', ''use_us'', ''us_onset'']"

section \<open>A block that the parser never leaves\<close>

definition token :: "lexeme \<Rightarrow> string \<Rightarrow> lexed_token" where
  "token l raw = \<lparr> lex = l, raw_token = raw \<rparr>"

text \<open>
  A file whose block \<^verbatim>\<open>b\<close> holds a type name between two identifiers, and its lexed
  tokens.
\<close>

definition loop_file :: string where
  "loop_file = unlines
    [''begin filetype run'',
     ''begin section trial_def'',
     ''def block b'',
     ''A int B'',
     ''end'',
     ''end'',
     ''end'']"

definition loop_tokens :: "lexed_token list" where
  "loop_tokens =
     [token BEGIN_MARKER ''begin'', token REGION ''filetype'', token REGION_TYPE ''run'', new_line_token,
      token BEGIN_MARKER ''begin'', token REGION ''section'', token REGION_TYPE ''trial_def'',
      new_line_token,
      token DEF ''def'', token DEF_TYPE ''block'', token VAR_IDENTIFIER ''b'', new_line_token,
      token VAR_IDENTIFIER ''A'', token TYPE_NAME ''int'', token VAR_IDENTIFIER ''B'', new_line_token,
      token END_MARKER ''end'', new_line_token,
      token END_MARKER ''end'', new_line_token,
      token END_MARKER ''end'', new_line_token]"

text \<open>
  A state of \<^verbatim>\<open>parse_def\<close> that the loop never leaves: an identifier is pending, the
  position is on an identifier or on the last of the tokens inserted in front of it, and
  neither the token in front of them nor \<^verbatim>\<open>prev_lex\<close> lets an inserted token count as a
  value.
\<close>

definition stuck :: "def_state \<Rightarrow> bool" where
  "stuck st =
     (\<exists>before k tok rest.
        d_tokens st = before @ replicate k shadow_token @ tok # rest
        \<and> before \<noteq> [] \<and> lex (last before) \<noteq> VAR_IDENTIFIER \<and> lex (last before) \<noteq> NEW_LINE
        \<and> lex tok = VAR_IDENTIFIER
        \<and> fst (curr_pair st) \<noteq> []
        \<and> prev_lex st \<noteq> VAR_IDENTIFIER \<and> prev_lex st \<noteq> NEW_LINE
        \<and> (d_ltp st = length before + k \<or> (0 < k \<and> d_ltp st + 1 = length before + k)))"

section \<open>The bodies of block, session and experiment definitions\<close>

text \<open>
  The body the specification describes for these definitions: identifiers, each with or
  without a value right after it, on one or several lines, and comments. \<open>Counted\<close> is an
  identifier with its value, \<open>Bare\<close> an identifier without one, \<open>Line_End\<close> the sentinel
  the lexer puts after a line, \<open>Comment\<close> the token \<^verbatim>\<open>//\<close>, the tokens after it on its
  line and the sentinel of that line.
\<close>

datatype entry = Counted string string | Bare string | Line_End | Comment "lexed_token list"

fun render :: "entry \<Rightarrow> lexed_token list" where
  "render (Counted label count) = [token VAR_IDENTIFIER label, token VAR_VALUE count]"
| "render (Bare label) = [token VAR_IDENTIFIER label]"
| "render Line_End = [new_line_token]"
| "render (Comment ws) = token SINGLE_COMMENT ''//'' # ws @ [new_line_token]"

definition render_body :: "entry list \<Rightarrow> lexed_token list" where
  "render_body es = concat (map render es)"

text \<open>The pairs the specification expects: the value where there is one, else \<^verbatim>\<open>"1"\<close>.\<close>

fun entry_pairs :: "entry list \<Rightarrow> pair list" where
  "entry_pairs [] = []"
| "entry_pairs (Counted label count # es) = (label, count) # entry_pairs es"
| "entry_pairs (Bare label # es) = (label, ''1'') # entry_pairs es"
| "entry_pairs (Line_End # es) = entry_pairs es"
| "entry_pairs (Comment ws # es) = entry_pairs es"

text \<open>
  Identifiers are not empty (the tokenizer produces no empty token), and the tokens of a
  comment are those of one line: none of them is the sentinel.
\<close>

fun entry_ok :: "entry \<Rightarrow> bool" where
  "entry_ok (Counted label count) = (label \<noteq> [])"
| "entry_ok (Bare label) = (label \<noteq> [])"
| "entry_ok Line_End = True"
| "entry_ok (Comment ws) = list_all (\<lambda>t. lex t \<noteq> NEW_LINE) ws"

text \<open>What may stand between two regions or two definitions: line ends and comments.\<close>

fun blank :: "entry \<Rightarrow> bool" where
  "blank (Counted label count) = False"
| "blank (Bare label) = False"
| "blank Line_End = True"
| "blank (Comment ws) = list_all (\<lambda>t. lex t \<noteq> NEW_LINE) ws"

text \<open>
  The file after the definition \<open>def_label\<close> of type \<open>def_type\<close> with the pairs \<open>ps\<close>
  has been stored: an entry of \<^verbatim>\<open>block_map\<close> or \<^verbatim>\<open>session_map\<close>, or more pairs of the
  experiment.
\<close>

definition file_with_pairs ::
  "string \<Rightarrow> string \<Rightarrow> pair list \<Rightarrow> parsed_expt_file \<Rightarrow> parsed_expt_file" where
  "file_with_pairs def_type def_label ps e_file =
     (if def_type = ''block'' then
        e_file\<lparr> parsed_trial_info := (parsed_trial_info e_file)
          \<lparr> block_map := (block_map (parsed_trial_info e_file))(def_label \<mapsto> ps) \<rparr> \<rparr>
      else if def_type = ''session'' then
        e_file\<lparr> parsed_trial_info := (parsed_trial_info e_file)
          \<lparr> session_map := (session_map (parsed_trial_info e_file))(def_label \<mapsto> ps) \<rparr> \<rparr>
      else
        e_file\<lparr> parsed_trial_info := (parsed_trial_info e_file)
          \<lparr> experiment_pairs := experiment_pairs (parsed_trial_info e_file) @ ps \<rparr> \<rparr>)"

text \<open>A body with a comment in it, and a file whose block is written on the line of its header.\<close>

definition sample_body :: "entry list" where
  "sample_body =
     [Bare ''A'', Counted ''B'' ''3'', Comment [token VAR_IDENTIFIER ''twice'', token END_MARKER ''end''],
      Bare ''C'', Line_End]"

definition one_line_block :: string where
  "one_line_block = unlines
    [''begin filetype run'',
     ''begin section trial_def'',
     ''def block b1 t1 2 t2 end'',
     ''end'',
     ''end'']"

text \<open>Notions for the proofs about the loop of \<^verbatim>\<open>parse_def\<close>.\<close>

fun push_all :: "string \<Rightarrow> pair list \<Rightarrow> def_state \<Rightarrow> def_state" where
  "push_all def_type [] st = st"
| "push_all def_type (p # ps) st = push_all def_type ps (push_pair def_type p st)"

definition result_of ::
  "def_state \<Rightarrow> (string \<rightharpoonup> variable) \<times> pair list \<times> pair list \<times> parsed_expt_file" where
  "result_of st = (curr_trial st, curr_block st, curr_session st, d_e_file st)"

definition pending_pair :: "string \<Rightarrow> pair list" where
  "pending_pair label = (if label = [] then [] else [(label, ''1'')])"

definition finishes :: "string \<Rightarrow> def_state \<Rightarrow> def_state \<Rightarrow> bool" where
  "finishes def_type st st' = (\<exists>fuel. parse_def_loop fuel def_type st = Ok st')"

definition leads_to :: "string \<Rightarrow> def_state \<Rightarrow> def_state \<Rightarrow> bool" where
  "leads_to def_type st st1 = (\<forall>r. finishes def_type st1 r \<longrightarrow> finishes def_type st r)"

definition stops_at :: "lexed_token \<Rightarrow> lexed_token list \<Rightarrow> def_state \<Rightarrow> bool" where
  "stops_at end_tok rest st =
     (\<exists>pre. d_tokens st = pre @ end_tok # rest \<and> d_ltp st = length pre)"

section \<open>Hierarchies without cycles\<close>

text \<open>
  A label is a group when it names a block or a session; its members are the pairs of
  the lists it names. A hierarchy has no cycle of references when the groups can be
  ranked so that every group among the members of a label ranks below the label.
\<close>

definition is_group :: "parsed_trial_section \<Rightarrow> string \<Rightarrow> bool" where
  "is_group pt_section label =
     (block_map pt_section label \<noteq> None \<or> session_map pt_section label \<noteq> None)"

definition members :: "parsed_trial_section \<Rightarrow> string \<Rightarrow> pair list" where
  "members pt_section label =
     (case block_map pt_section label of Some v \<Rightarrow> v | None \<Rightarrow> [])
     @ (case session_map pt_section label of Some v \<Rightarrow> v | None \<Rightarrow> [])"

definition acyclic_by :: "parsed_trial_section \<Rightarrow> (string \<Rightarrow> nat) \<Rightarrow> bool" where
  "acyclic_by pt_section rank =
     (\<forall>label. \<forall>p \<in> set (members pt_section label).
        is_group pt_section (fst p) \<longrightarrow> rank (fst p) < rank label)"

text \<open>The groups named in the list \<open>v\<close> rank below \<open>k\<close>.\<close>

definition below :: "parsed_trial_section \<Rightarrow> (string \<Rightarrow> nat) \<Rightarrow> nat \<Rightarrow> pair list \<Rightarrow> bool" where
  "below pt_section rank k v =
     (\<forall>p \<in> set v. is_group pt_section (fst p) \<longrightarrow> rank (fst p) < k)"

section \<open>Properties of the trial count\<close>

lemma bind_Ok_right: "bind r Ok = r"
  by (cases r) simp_all

lemma count_pair_total:
  assumes "\<And>v c. rec v c = bind (sub_total v) (\<lambda>t. Ok (c * t))"
  shows "count_pair rec pt_section p = pair_total sub_total pt_section p"
  by (cases "stoi_u32 (snd p)")
     (simp_all add: count_pair_def pair_total_def referenced_def assms split: option.split)

lemma count_loop_sum:
  assumes "\<And>v c. rec v c = bind (sub_total v) (\<lambda>t. Ok (c * t))"
  shows "count_loop (count_pair rec pt_section) level acc =
     bind (sum_results (map (pair_total sub_total pt_section) level)) (\<lambda>s. Ok (acc + s))"
proof (induction level arbitrary: acc)
  case Nil
  show ?case by simp
next
  case (Cons p ps)
  have body: "count_pair rec pt_section p = pair_total sub_total pt_section p"
    using assms by (rule count_pair_total)
  show ?case
  proof (cases "pair_total sub_total pt_section p")
    case (Ok c)
    then show ?thesis
      using Cons.IH [of "acc + c"] body
      by (cases "sum_results (map (pair_total sub_total pt_section) ps)")
         (simp_all add: add.assoc)
  qed (simp_all add: body)
qed

lemma helper_level_total:
  "calculate_num_trials_helper depth pt_section level n =
     bind (level_total depth pt_section level) (\<lambda>t. Ok (n * t))"
proof (induction depth arbitrary: level n)
  case 0
  show ?case by simp
next
  case (Suc depth)
  have "count_loop (count_pair (calculate_num_trials_helper depth pt_section) pt_section) level 0 =
      bind (sum_results (map (pair_total (level_total depth pt_section) pt_section) level))
        (\<lambda>s. Ok (0 + s))"
    by (rule count_loop_sum) (rule Suc.IH)
  then show ?case
    by (cases "sum_results (map (pair_total (level_total depth pt_section) pt_section) level)")
       simp_all
qed

lemma example_count: "calculate_num_trials 2 example_hierarchy = Ok 14"
  by code_simp

text \<open>
  C1. The trial count composes by multiplication over nesting and by addition over
  siblings: at every level \<^verbatim>\<open>calculate_num_trials_helper\<close> multiplies the count it is
  given by the sum, over the pairs of the level, of the pair's count times the total of
  the block or session the pair refers to, or of the pair's count alone; the count of the
  whole hierarchy is that sum for the experiment's pairs. For the experiment
  \<open>[(A,2),(B,3)]\<close> with the block \<open>B = [(C,4)]\<close> the count is \<open>2*1 + 3*4 = 14\<close>.
\<close>

theorem calculate_num_trials_composition:
  "calculate_num_trials_helper depth pt_section level n =
     bind (level_total depth pt_section level) (\<lambda>t. Ok (n * t))
   \<and> calculate_num_trials depth pt_section =
       level_total depth pt_section (experiment_pairs pt_section)
   \<and> calculate_num_trials 2 example_hierarchy = Ok 14"
proof -
  have "calculate_num_trials depth pt_section =
      bind (level_total depth pt_section (experiment_pairs pt_section)) Ok"
    by (simp add: calculate_num_trials_def helper_level_total)
  then show ?thesis
    by (simp add: bind_Ok_right helper_level_total example_count)
qed

section \<open>Properties of the tokenizer\<close>

lemma tokenize_lines_append:
  "tokenize_lines ls t_file =
     t_file @ map (\<lambda>line. split_tokens line []) (filter (\<lambda>line. line \<noteq> []) ls)"
  by (induction ls arbitrary: t_file) simp_all

lemma split_tokens_concat:
  "concat (split_tokens line cur) = rev cur @ filter (\<lambda>c. \<not> is_space c) line"
  by (induction line arbitrary: cur) simp_all

lemma split_tokens_empty:
  "(split_tokens line cur = []) = (cur = [] \<and> list_all is_space line)"
  by (induction line arbitrary: cur) simp_all

text \<open>
  C9, as the claim states it, fails: a file whose only line is one blank is tokenized to
  one \<^verbatim>\<open>RawLine\<close>, which is empty.
\<close>

theorem blank_line_kept:
  "tokenize_file (Some [CHR '' '', CHR 0x0A]) [] = Ok [[]]"
  by (simp add: tokenize_file_def is_space_def)

text \<open>
  C9, amended. The tokenizer drops the lines that have no character, and only those:
  its output holds, in the order of the file, the whitespace-delimited tokens of every
  line that is not the empty string. The tokens of a line are all of its characters that
  are not white space, in order, and a line gives an empty \<^verbatim>\<open>RawLine\<close> exactly when all
  of its characters are white space.
\<close>

theorem tokenizer_drops_empty_lines:
  "tokenize_file (Some content) [] =
     Ok (map (\<lambda>line. split_tokens line [])
          (filter (\<lambda>line. line \<noteq> []) (getlines content [])))
   \<and> (split_tokens line [] = []) = list_all is_space line
   \<and> concat (split_tokens line []) = filter (\<lambda>c. \<not> is_space c) line"
  by (simp add: tokenize_file_def tokenize_lines_append split_tokens_concat split_tokens_empty)

section \<open>Properties of the lexer\<close>

lemma token_defs_not_new_line: "token_defs raw = Some l \<Longrightarrow> l \<noteq> NEW_LINE"
  unfolding token_defs_def
  by (drule map_of_SomeD) (auto simp: token_defs_list_def)

lemma token_defs_at_id: "token_defs_at var_id_regex_str = VAR_IDENTIFIER"
  by (simp add: token_defs_at_def token_defs_def token_defs_list_def var_id_regex_str_def
      var_val_regex_str_def)

lemma token_defs_at_val: "token_defs_at var_val_regex_str = VAR_VALUE"
  by (simp add: token_defs_at_def token_defs_def token_defs_list_def var_id_regex_str_def
      var_val_regex_str_def)

lemma lex_token_not_new_line: "lex (lex_token raw) \<noteq> NEW_LINE"
  by (auto simp: lex_token_def token_defs_at_id token_defs_at_val default_lexeme_def
      dest: token_defs_not_new_line split: option.split)

lemma raw_lex_token: "raw_token (lex_token raw) = raw"
  by (simp add: lex_token_def)

lemma lex_line_append: "lex_line line tokens = tokens @ map lex_token line"
  by (induction line arbitrary: tokens) simp_all

lemma lex_tokenized_file_append:
  "lex_tokenized_file t_file tokens =
     tokens @ concat (map (\<lambda>line. map lex_token line @ [new_line_token]) t_file)"
  by (induction t_file arbitrary: tokens) (simp_all add: lex_line_append)

lemma keep_lexed_line:
  "filter (\<lambda>t. lex t \<noteq> NEW_LINE) (map lex_token line) = map lex_token line"
  by (induction line) (simp_all add: lex_token_not_new_line)

lemma drop_lexed_line:
  "filter (\<lambda>t. lex t = NEW_LINE) (map lex_token line) = []"
  by (induction line) (simp_all add: lex_token_not_new_line)

lemma lex_new_line_token: "lex new_line_token = NEW_LINE"
  by (simp add: new_line_token_def)

text \<open>
  C6. Lexing keeps the text of every raw token, in order: the \<^verbatim>\<open>raw_token\<close> fields of
  the lexed tokens other than the \<^verbatim>\<open>NEW_LINE\<close> sentinels are the tokens of the tokenized
  file, line after line, and there is one sentinel for each line.
\<close>

theorem lex_round_trip:
  "map raw_token (filter (\<lambda>t. lex t \<noteq> NEW_LINE) (lex_tokenized_file t_file [])) = concat t_file
   \<and> length (filter (\<lambda>t. lex t = NEW_LINE) (lex_tokenized_file t_file [])) = length t_file"
proof -
  let ?lexed = "\<lambda>line. map lex_token line @ [new_line_token]"
  have whole: "lex_tokenized_file t_file [] = concat (map ?lexed t_file)"
    by (simp add: lex_tokenized_file_append)
  have texts: "map raw_token (filter (\<lambda>t. lex t \<noteq> NEW_LINE) (concat (map ?lexed t_file)))
      = concat t_file"
    by (induction t_file)
       (simp_all add: keep_lexed_line lex_new_line_token raw_lex_token comp_def)
  have sentinels: "length (filter (\<lambda>t. lex t = NEW_LINE) (concat (map ?lexed t_file)))
      = length t_file"
    by (induction t_file) (simp_all add: drop_lexed_line lex_new_line_token)
  from texts sentinels show ?thesis
    unfolding whole by simp
qed

lemma keyword_table_lexemes:
  "list_all (\<lambda>k. case token_defs k of
                   None \<Rightarrow> False
                 | Some l \<Rightarrow> l \<noteq> VAR_IDENTIFIER \<and> l \<noteq> VAR_VALUE) keyword_table"
  by code_simp

lemma keyword_lexeme:
  "raw \<in> set keyword_table \<Longrightarrow>
     token_defs raw \<noteq> None \<and> token_defs raw \<noteq> Some VAR_IDENTIFIER
     \<and> token_defs raw \<noteq> Some VAR_VALUE"
  using keyword_table_lexemes by (auto simp: list_all_iff split: option.splits)

text \<open>
  C7. The lexer looks a raw token up in \<^verbatim>\<open>token_defs\<close> first and takes the lexeme of the
  table when the token is a key; only a token that is no key is matched against the
  identifier pattern, then against the value pattern, and gets the lexeme \<open>NONE\<close> when
  neither matches (no error is raised). A keyword is therefore never an identifier or a
  value.
\<close>

theorem lexer_classification_order:
  "(token_defs raw = Some l \<longrightarrow> lex (lex_token raw) = l)
   \<and> (token_defs raw = None \<longrightarrow>
        lex (lex_token raw) =
          (if regex_match raw var_id_regex then VAR_IDENTIFIER
           else if regex_match raw var_val_regex then VAR_VALUE
           else NONE))
   \<and> (raw \<in> set keyword_table \<longrightarrow>
        lex (lex_token raw) \<noteq> VAR_IDENTIFIER \<and> lex (lex_token raw) \<noteq> VAR_VALUE)"
  using keyword_lexeme [of raw]
  by (auto simp: lex_token_def token_defs_at_id token_defs_at_val default_lexeme_def
      split: option.split)

theorem lexer_classification_order_witness:
  "token_defs ''begin'' = Some BEGIN_MARKER \<and> regex_match ''begin'' var_id_regex
   \<and> lex (lex_token ''begin'') = BEGIN_MARKER
   \<and> token_defs ''t-1'' = None \<and> lex (lex_token ''t-1'') = NONE
   \<and> ''int'' \<in> set keyword_table \<and> lex (lex_token ''int'') \<noteq> VAR_IDENTIFIER"
proof -
  have a: "token_defs ''begin'' = Some BEGIN_MARKER" by code_simp
  have b: "regex_match ''begin'' var_id_regex" by code_simp
  have c: "token_defs ''t-1'' = None" by code_simp
  have d: "\<not> regex_match ''t-1'' var_id_regex" by code_simp
  have e: "\<not> regex_match ''t-1'' var_val_regex" by code_simp
  have f: "''int'' \<in> set keyword_table" by code_simp
  show ?thesis
    using lexer_classification_order [of "''begin''" BEGIN_MARKER]
      lexer_classification_order [of "''t-1''" NONE]
      lexer_classification_order [of "''int''" NONE] a b c d e f
    by simp
qed

text \<open>
  C10. A token that is a single sign or a single dot is no key of \<^verbatim>\<open>token_defs\<close> and no
  identifier, and the value pattern, all of whose parts are optional, matches it: the
  lexer gives it the lexeme \<open>VAR_VALUE\<close>, not \<open>NONE\<close>. In a block, \<^verbatim>\<open>parse_def\<close> takes
  it for the count of the identifier in front of it (\<^verbatim>\<open>std::stoi\<close> throws on it later).
\<close>

theorem sign_or_dot_is_value:
  "lex (lex_token ''+'') = VAR_VALUE \<and> lex (lex_token ''-'') = VAR_VALUE
   \<and> lex (lex_token ''.'') = VAR_VALUE
   \<and> token_defs ''+'' = None \<and> token_defs ''-'' = None \<and> token_defs ''.'' = None
   \<and> regex_match [] var_val_regex
   \<and> (case parse_def 5 (0, lex_tokenized_file [[''A'', ''+''], [''end'']] [], empty_expt_file)
               ''block'' ''b'' of
         Ok (ltp, tokens, e_file) \<Rightarrow>
           block_map (parsed_trial_info e_file) ''b'' = Some [(''A'', ''+'')]
       | Raise e \<Rightarrow> False
       | Timeout \<Rightarrow> False)
   \<and> stoi ''+'' = Raise InvalidArgument"
  by code_simp

section \<open>Properties of the resolution of undefined labels\<close>

lemma repeat_body_Ok: "repeat_body k Ok x = Ok x"
  by (induction k) simp_all

lemma unresolved_count_pair:
  "unresolved pt_section label \<Longrightarrow> stoi_u32 count = Ok n \<Longrightarrow>
     count_pair rec pt_section (label, count) = Ok n"
  by (simp add: unresolved_def count_pair_def)

lemma unresolved_names_pair:
  "unresolved pt_section label \<Longrightarrow> stoi_u32 count = Ok n \<Longrightarrow>
     names_pair rec pt_section (label, count) names = Ok names"
  by (simp add: unresolved_def names_pair_def repeat_body_Ok)

text \<open>
  C4, as the claim states it, fails: for an experiment that names the undefined label
  \<open>ghost\<close> twice, the count is two trials and the expansion of the names returns the
  array as it was; neither reports an error.
\<close>

theorem unresolved_label_silent:
  "unresolved ghost_hierarchy ''ghost''
   \<and> calculate_num_trials 1 ghost_hierarchy = Ok 2
   \<and> initialize_trial_names_helper 1 ghost_hierarchy (experiment_pairs ghost_hierarchy) [[], []]
       = Ok [[], []]"
  by code_simp

text \<open>
  C4, amended. Trial resolution has no error for a label without a definition: where the
  count of the pair is a number, the count computation adds it to the sum of the level
  as it does for a trial, and the expansion of the names goes on with the next pair
  without writing a name.
\<close>

theorem unresolved_label_not_reported:
  assumes "unresolved pt_section label" and "stoi_u32 count = Ok n"
  shows "calculate_num_trials_helper (Suc depth) pt_section ((label, count) # rest) m =
           bind (level_total (Suc depth) pt_section rest) (\<lambda>s. Ok (m * (n + s)))
         \<and> initialize_trial_names_helper (Suc depth) pt_section ((label, count) # rest) names =
           initialize_trial_names_helper (Suc depth) pt_section rest names"
proof -
  have "referenced pt_section label = None"
    using assms(1) by (simp add: unresolved_def referenced_def)
  then have "pair_total (level_total depth pt_section) pt_section (label, count) = Ok n"
    using assms(2) by (simp add: pair_total_def)
  then have count: "level_total (Suc depth) pt_section ((label, count) # rest) =
      bind (level_total (Suc depth) pt_section rest) (\<lambda>s. Ok (n + s))"
    by simp
  have "calculate_num_trials_helper (Suc depth) pt_section ((label, count) # rest) m =
      bind (level_total (Suc depth) pt_section rest) (\<lambda>s. Ok (m * (n + s)))"
    unfolding helper_level_total count
    by (cases "level_total (Suc depth) pt_section rest") simp_all
  moreover have "initialize_trial_names_helper (Suc depth) pt_section ((label, count) # rest) names =
      initialize_trial_names_helper (Suc depth) pt_section rest names"
    using assms by (simp add: unresolved_names_pair)
  ultimately show ?thesis by simp
qed

theorem unresolved_label_not_reported_witness:
  "unresolved ghost_hierarchy ''ghost'' \<and> stoi_u32 ''2'' = Ok 2
   \<and> calculate_num_trials_helper 1 ghost_hierarchy [(''ghost'', ''2'')] 1 = Ok 2
   \<and> initialize_trial_names_helper 1 ghost_hierarchy [(''ghost'', ''2'')] [[], []] = Ok [[], []]"
proof -
  have a: "unresolved ghost_hierarchy ''ghost''" by code_simp
  have b: "stoi_u32 ''2'' = Ok 2" by code_simp
  show ?thesis
    using unresolved_label_not_reported [OF a b, of 0 "[]" 1 "[[], []]"] a b
    by simp
qed

section \<open>Properties of the header check\<close>

lemma first_begin_found:
  "first_begin tokens ltp = Ok j \<Longrightarrow>
     ltp \<le> j \<and> j < length tokens \<and> lex (tokens ! j) = BEGIN_MARKER"
proof (induction tokens ltp rule: first_begin.induct)
  case (1 tokens ltp)
  from "1.prems" have inb: "ltp < length tokens"
    by (simp add: first_begin.simps [of tokens ltp] split: if_splits)
  show ?case
  proof (cases "lex (tokens ! ltp) = BEGIN_MARKER")
    case True
    with "1.prems" inb show ?thesis
      by (simp add: first_begin.simps [of tokens ltp])
  next
    case nb: False
    show ?thesis
    proof (cases "lex (tokens ! ltp) = SINGLE_COMMENT")
      case True
      with "1.prems" inb nb obtain k where k: "skip_to_new_line tokens ltp = Ok k"
        and r: "first_begin tokens (k + 1) = Ok j"
        by (auto simp: first_begin.simps [of tokens ltp] split: result.splits)
      from "1.IH"(1) [OF inb nb True k r] skip_to_new_line_bounds [OF k] show ?thesis
        by simp
    next
      case False
      with "1.prems" inb nb have nl: "\<not> lex (tokens ! ltp) \<noteq> NEW_LINE"
        and r: "first_begin tokens (ltp + 1) = Ok j"
        by (auto simp: first_begin.simps [of tokens ltp] split: if_splits)
      from "1.IH"(2) [OF inb nb False nl r] show ?thesis by simp
    qed
  qed
qed

lemma check_filetype_cases:
  assumes "ltp + 2 < length tokens"
  shows "check_filetype tokens ltp kind =
     (if lex (tokens ! (ltp + 1)) \<noteq> REGION then Raise (Exit 4)
      else if raw_token (tokens ! (ltp + 1)) \<noteq> ''filetype'' then Raise (Exit 2)
      else if raw_token (tokens ! (ltp + 2)) \<noteq> kind then Raise (Exit 3)
      else Ok kind)"
  using assms by (simp add: check_filetype_def lex_at_def raw_at_def)

lemma check_filetype_Ok:
  "check_filetype tokens ltp kind = Ok r \<Longrightarrow>
     ltp + 2 < length tokens \<and> lex (tokens ! (ltp + 1)) = REGION
     \<and> raw_token (tokens ! (ltp + 1)) = ''filetype'' \<and> raw_token (tokens ! (ltp + 2)) = kind"
  by (auto simp: check_filetype_def lex_at_def raw_at_def split: if_splits)

lemma bind_returns: "returns (bind m f) \<Longrightarrow> \<exists>x. m = Ok x \<and> returns (f x)"
  by (cases m) simp_all


lemma expt_file_returns:
  assumes "returns (parse_lexed_expt_file fuel tokens e_file)"
  shows "\<exists>ltp. first_begin tokens 0 = Ok ltp \<and> filetype_header tokens ltp ''run''"
proof -
  from assms obtain ltp where fb: "first_begin tokens 0 = Ok ltp"
    and r: "returns (bind (check_filetype tokens ltp ''run'') (\<lambda>region_type.
         bind (parse_region fuel (ltp + 4, tokens, e_file) region_type)
           (\<lambda>(ltp', tokens', e_file'). Ok (tokens', e_file'))))"
    unfolding parse_lexed_expt_file_def by (blast dest: bind_returns)
  from r obtain rt where "check_filetype tokens ltp ''run'' = Ok rt"
    by (blast dest: bind_returns)
  with first_begin_found [OF fb] have "filetype_header tokens ltp ''run''"
    by (auto simp: filetype_header_def dest: check_filetype_Ok)
  with fb show ?thesis by blast
qed

lemma build_file_returns:
  assumes "returns (parse_lexed_build_file fuel tokens b_file)"
  shows "\<exists>ltp. first_begin tokens 0 = Ok ltp \<and> filetype_header tokens ltp ''build''"
proof -
  from assms obtain ltp where fb: "first_begin tokens 0 = Ok ltp"
    and r: "returns (bind (check_filetype tokens ltp ''build'') (\<lambda>region_type.
         bind (parse_region_build fuel (ltp + 4, tokens, b_file) region_type)
           (\<lambda>(ltp', tokens', b_file'). Ok (tokens', b_file'))))"
    unfolding parse_lexed_build_file_def by (blast dest: bind_returns)
  from r obtain rt where "check_filetype tokens ltp ''build'' = Ok rt"
    by (blast dest: bind_returns)
  with first_begin_found [OF fb] have "filetype_header tokens ltp ''build''"
    by (auto simp: filetype_header_def dest: check_filetype_Ok)
  with fb show ?thesis by blast
qed

lemma header_mismatch_exit:
  assumes "first_begin tokens 0 = Ok ltp" and "ltp + 2 < length tokens"
    and "\<not> filetype_header tokens ltp kind"
  shows "check_filetype tokens ltp kind \<in> {Raise (Exit 2), Raise (Exit 3), Raise (Exit 4)}"
  using assms first_begin_found [OF assms(1)]
  by (simp add: check_filetype_cases filetype_header_def)

lemma token_fields [simp]: "lex (token l raw) = l" "raw_token (token l raw) = raw"
  by (simp_all add: token_def)

lemma skip_words:
  assumes "list_all (\<lambda>t. lex t \<noteq> NEW_LINE) ws" and "lex nl = NEW_LINE"
  shows "skip_to_new_line (pre @ ws @ nl # suf) (length pre) = Ok (length pre + length ws)"
  using assms(1)
proof (induction ws arbitrary: pre)
  case Nil
  with assms(2) show ?case
    by (simp add: skip_to_new_line.simps [of _ "length pre"])
next
  case (Cons w ws)
  from Cons.prems have w: "lex w \<noteq> NEW_LINE" and ws: "list_all (\<lambda>t. lex t \<noteq> NEW_LINE) ws"
    by simp_all
  from Cons.IH [OF ws, of "pre @ [w]"]
  have "skip_to_new_line (pre @ w # ws @ nl # suf) (Suc (length pre)) =
      Ok (length pre + length (w # ws))"
    by simp
  with w show ?case
    by (simp add: skip_to_new_line.simps [of _ "length pre"])
qed

lemma skip_comment:
  assumes "list_all (\<lambda>t. lex t \<noteq> NEW_LINE) ws" and "lex nl = NEW_LINE"
    and "lex c = SINGLE_COMMENT"
  shows "skip_to_new_line (pre @ c # ws @ nl # suf) (length pre) =
     Ok (length pre + length ws + 1)"
proof -
  from assms have "list_all (\<lambda>t. lex t \<noteq> NEW_LINE) (c # ws)" by simp
  from skip_words [OF this assms(2), of pre suf] show ?thesis by simp
qed

lemma first_begin_blank:
  assumes t: "lex t \<noteq> SINGLE_COMMENT" "lex t \<noteq> NEW_LINE"
  shows "list_all blank bs \<Longrightarrow>
     first_begin (pre @ render_body bs @ t # rest) (length pre) =
       (if lex t = BEGIN_MARKER then Ok (length pre + length (render_body bs))
        else Raise (Exit 1))"
proof (induction bs arbitrary: pre)
  case Nil
  show ?case
    using t by (simp add: first_begin.simps [of _ "length pre"] render_body_def)
next
  case (Cons b bs)
  from Cons.prems have b: "blank b" and bs: "list_all blank bs" by simp_all
  let ?suf = "render_body bs @ t # rest"
  show ?case
  proof (cases b)
    case Line_End
    from Cons.IH [OF bs, of "pre @ [new_line_token]"]
    have "first_begin (pre @ new_line_token # ?suf) (Suc (length pre)) =
        (if lex t = BEGIN_MARKER then Ok (Suc (length pre) + length (render_body bs))
         else Raise (Exit 1))"
      by simp
    then show ?thesis
      by (simp add: first_begin.simps [of _ "length pre"] Line_End render_body_def
          new_line_token_def)
  next
    case (Comment ws)
    let ?c = "token SINGLE_COMMENT ''//''"
    from b Comment have ws: "list_all (\<lambda>t. lex t \<noteq> NEW_LINE) ws" by simp
    have nl: "lex new_line_token = NEW_LINE" by (simp add: new_line_token_def)
    have c: "lex ?c = SINGLE_COMMENT" by simp
    have sk: "skip_to_new_line (pre @ ?c # ws @ new_line_token # ?suf) (length pre) =
        Ok (length pre + length ws + 1)"
      using ws nl c by (rule skip_comment)
    from Cons.IH [OF bs, of "pre @ ?c # ws @ [new_line_token]"]
    have "first_begin (pre @ ?c # ws @ new_line_token # ?suf) (length pre + length ws + 2) =
        (if lex t = BEGIN_MARKER
         then Ok (length pre + length ws + 2 + length (render_body bs))
         else Raise (Exit 1))"
      by (simp add: add.commute add.left_commute)
    with sk show ?thesis
      by (simp add: first_begin.simps [of _ "length pre"] Comment render_body_def
          add.commute add.left_commute)
  qed (use b in simp_all)
qed

lemma blank_then_begin:
  assumes bs: "list_all blank bs" and t: "lex t = BEGIN_MARKER"
    and h: "\<not> (lex r1 = REGION \<and> raw_token r1 = ''filetype'' \<and> raw_token r2 = kind)"
  shows "first_begin (render_body bs @ t # r1 # r2 # rest) 0 = Ok (length (render_body bs))"
    and "check_filetype (render_body bs @ t # r1 # r2 # rest) (length (render_body bs)) kind
       \<in> {Raise (Exit 2), Raise (Exit 3), Raise (Exit 4)}"
proof -
  let ?tokens = "render_body bs @ t # r1 # r2 # rest"
  let ?n = "length (render_body bs)"
  from t have "lex t \<noteq> SINGLE_COMMENT" "lex t \<noteq> NEW_LINE" by simp_all
  from first_begin_blank [OF this bs, of "[]" "r1 # r2 # rest"] t
  show fb: "first_begin ?tokens 0 = Ok ?n" by simp
  have len: "?n + 2 < length ?tokens" by simp
  have "?tokens ! (?n + 1) = r1" "?tokens ! (?n + 2) = r2"
    by (simp_all add: nth_append)
  with h have "\<not> filetype_header ?tokens ?n kind"
    by (simp add: filetype_header_def)
  with fb len show "check_filetype ?tokens ?n kind
       \<in> {Raise (Exit 2), Raise (Exit 3), Raise (Exit 4)}"
    by (rule header_mismatch_exit)
qed

text \<open>
  C5, amended. A document is returned only if the first \<^verbatim>\<open>BEGIN_MARKER\<close> that the scan
  over comments and new lines reaches is followed by the region \<^verbatim>\<open>filetype\<close> and by the
  region type \<^verbatim>\<open>run\<close> (experiment file) or \<^verbatim>\<open>build\<close> (build file). Where the scan
  reaches a \<^verbatim>\<open>BEGIN_MARKER\<close> and the two tokens after it are not this header, parsing
  ends in \<^verbatim>\<open>exit(2)\<close>, \<^verbatim>\<open>exit(3)\<close> or \<^verbatim>\<open>exit(4)\<close>; where it meets another token first,
  in \<^verbatim>\<open>exit(1)\<close>. In terms of the document: after any number of line ends and of
  comments, the scan stops at the first token \<open>t\<close> that is neither; it reaches a
  \<^verbatim>\<open>BEGIN_MARKER\<close> if \<open>t\<close> is one, and parsing ends in \<^verbatim>\<open>exit(1)\<close> for both kinds of file
  if it is not; if \<open>t\<close> is a \<^verbatim>\<open>BEGIN_MARKER\<close> and the two tokens after it are not the
  header, parsing ends in \<^verbatim>\<open>exit(2)\<close>, \<^verbatim>\<open>exit(3)\<close> or \<^verbatim>\<open>exit(4)\<close>. (A document with no
  token outside its comments and line ends is left open.)
\<close>

theorem header_mismatch_is_fatal:
  "(returns (parse_lexed_expt_file fuel tokens e_file) \<longrightarrow>
      (\<exists>ltp. first_begin tokens 0 = Ok ltp \<and> filetype_header tokens ltp ''run''))
   \<and> (returns (parse_lexed_build_file fuel tokens b_file) \<longrightarrow>
      (\<exists>ltp. first_begin tokens 0 = Ok ltp \<and> filetype_header tokens ltp ''build''))
   \<and> (first_begin tokens 0 = Ok ltp \<and> ltp + 2 < length tokens
        \<and> \<not> filetype_header tokens ltp ''run'' \<longrightarrow>
      parse_lexed_expt_file fuel tokens e_file
        \<in> {Raise (Exit 2), Raise (Exit 3), Raise (Exit 4)})
   \<and> (first_begin tokens 0 = Ok ltp \<and> ltp + 2 < length tokens
        \<and> \<not> filetype_header tokens ltp ''build'' \<longrightarrow>
      parse_lexed_build_file fuel tokens b_file
        \<in> {Raise (Exit 2), Raise (Exit 3), Raise (Exit 4)})
   \<and> (first_begin tokens 0 = Raise (Exit 1) \<longrightarrow>
      parse_lexed_expt_file fuel tokens e_file = Raise (Exit 1)
      \<and> parse_lexed_build_file fuel tokens b_file = Raise (Exit 1))
   \<and> (list_all blank bs \<and> lex t \<noteq> SINGLE_COMMENT \<and> lex t \<noteq> NEW_LINE \<longrightarrow>
      first_begin (render_body bs @ t # rest) 0 =
        (if lex t = BEGIN_MARKER then Ok (length (render_body bs)) else Raise (Exit 1)))
   \<and> (list_all blank bs \<and> lex t \<noteq> BEGIN_MARKER \<and> lex t \<noteq> SINGLE_COMMENT
        \<and> lex t \<noteq> NEW_LINE \<longrightarrow>
      parse_lexed_expt_file fuel (render_body bs @ t # rest) e_file = Raise (Exit 1)
      \<and> parse_lexed_build_file fuel (render_body bs @ t # rest) b_file = Raise (Exit 1))
   \<and> (list_all blank bs \<and> lex t = BEGIN_MARKER
        \<and> \<not> (lex r1 = REGION \<and> raw_token r1 = ''filetype'' \<and> raw_token r2 = ''run'') \<longrightarrow>
      parse_lexed_expt_file fuel (render_body bs @ t # r1 # r2 # rest) e_file
        \<in> {Raise (Exit 2), Raise (Exit 3), Raise (Exit 4)})
   \<and> (list_all blank bs \<and> lex t = BEGIN_MARKER
        \<and> \<not> (lex r1 = REGION \<and> raw_token r1 = ''filetype'' \<and> raw_token r2 = ''build'') \<longrightarrow>
      parse_lexed_build_file fuel (render_body bs @ t # r1 # r2 # rest) b_file
        \<in> {Raise (Exit 2), Raise (Exit 3), Raise (Exit 4)})"
proof (intro conjI impI)
  assume "returns (parse_lexed_expt_file fuel tokens e_file)"
  then show "\<exists>ltp. first_begin tokens 0 = Ok ltp \<and> filetype_header tokens ltp ''run''"
    by (rule expt_file_returns)
next
  assume "returns (parse_lexed_build_file fuel tokens b_file)"
  then show "\<exists>ltp. first_begin tokens 0 = Ok ltp \<and> filetype_header tokens ltp ''build''"
    by (rule build_file_returns)
next
  assume a: "first_begin tokens 0 = Ok ltp \<and> ltp + 2 < length tokens
      \<and> \<not> filetype_header tokens ltp ''run''"
  then have "check_filetype tokens ltp ''run'' \<in> {Raise (Exit 2), Raise (Exit 3), Raise (Exit 4)}"
    using header_mismatch_exit by simp
  with a show "parse_lexed_expt_file fuel tokens e_file
      \<in> {Raise (Exit 2), Raise (Exit 3), Raise (Exit 4)}"
    by (auto simp: parse_lexed_expt_file_def)
next
  assume a: "first_begin tokens 0 = Ok ltp \<and> ltp + 2 < length tokens
      \<and> \<not> filetype_header tokens ltp ''build''"
  then have "check_filetype tokens ltp ''build'' \<in> {Raise (Exit 2), Raise (Exit 3), Raise (Exit 4)}"
    using header_mismatch_exit by simp
  with a show "parse_lexed_build_file fuel tokens b_file
      \<in> {Raise (Exit 2), Raise (Exit 3), Raise (Exit 4)}"
    by (auto simp: parse_lexed_build_file_def)
next
  assume "first_begin tokens 0 = Raise (Exit 1)"
  then show "parse_lexed_expt_file fuel tokens e_file = Raise (Exit 1)"
    by (simp add: parse_lexed_expt_file_def)
next
  assume "first_begin tokens 0 = Raise (Exit 1)"
  then show "parse_lexed_build_file fuel tokens b_file = Raise (Exit 1)"
    by (simp add: parse_lexed_build_file_def)
next
  assume "list_all blank bs \<and> lex t \<noteq> SINGLE_COMMENT \<and> lex t \<noteq> NEW_LINE"
  then show "first_begin (render_body bs @ t # rest) 0 =
      (if lex t = BEGIN_MARKER then Ok (length (render_body bs)) else Raise (Exit 1))"
    using first_begin_blank [of t bs "[]" rest] by simp
next
  assume "list_all blank bs \<and> lex t \<noteq> BEGIN_MARKER \<and> lex t \<noteq> SINGLE_COMMENT
      \<and> lex t \<noteq> NEW_LINE"
  then have "first_begin (render_body bs @ t # rest) 0 = Raise (Exit 1)"
    using first_begin_blank [of t bs "[]" rest] by simp
  then show "parse_lexed_expt_file fuel (render_body bs @ t # rest) e_file = Raise (Exit 1)"
    by (simp add: parse_lexed_expt_file_def)
next
  assume "list_all blank bs \<and> lex t \<noteq> BEGIN_MARKER \<and> lex t \<noteq> SINGLE_COMMENT
      \<and> lex t \<noteq> NEW_LINE"
  then have "first_begin (render_body bs @ t # rest) 0 = Raise (Exit 1)"
    using first_begin_blank [of t bs "[]" rest] by simp
  then show "parse_lexed_build_file fuel (render_body bs @ t # rest) b_file = Raise (Exit 1)"
    by (simp add: parse_lexed_build_file_def)
next
  assume "list_all blank bs \<and> lex t = BEGIN_MARKER
      \<and> \<not> (lex r1 = REGION \<and> raw_token r1 = ''filetype'' \<and> raw_token r2 = ''run'')"
  then have a: "list_all blank bs" "lex t = BEGIN_MARKER"
    "\<not> (lex r1 = REGION \<and> raw_token r1 = ''filetype'' \<and> raw_token r2 = ''run'')"
    by simp_all
  from blank_then_begin [OF a, of rest]
  show "parse_lexed_expt_file fuel (render_body bs @ t # r1 # r2 # rest) e_file
      \<in> {Raise (Exit 2), Raise (Exit 3), Raise (Exit 4)}"
    by (auto simp: parse_lexed_expt_file_def)
next
  assume "list_all blank bs \<and> lex t = BEGIN_MARKER
      \<and> \<not> (lex r1 = REGION \<and> raw_token r1 = ''filetype'' \<and> raw_token r2 = ''build'')"
  then have a: "list_all blank bs" "lex t = BEGIN_MARKER"
    "\<not> (lex r1 = REGION \<and> raw_token r1 = ''filetype'' \<and> raw_token r2 = ''build'')"
    by simp_all
  from blank_then_begin [OF a, of rest]
  show "parse_lexed_build_file fuel (render_body bs @ t # r1 # r2 # rest) b_file
      \<in> {Raise (Exit 2), Raise (Exit 3), Raise (Exit 4)}"
    by (auto simp: parse_lexed_build_file_def)
qed

theorem header_mismatch_is_fatal_witness:
  "first_begin build_header 0 = Ok 0 \<and> 0 + 2 < length build_header
   \<and> \<not> filetype_header build_header 0 ''run''
   \<and> parse_lexed_expt_file 3 build_header empty_expt_file
        \<in> {Raise (Exit 2), Raise (Exit 3), Raise (Exit 4)}
   \<and> first_begin stray_header 0 = Raise (Exit 1)
   \<and> parse_lexed_build_file 3 stray_header empty_build_file = Raise (Exit 1)
   \<and> noted_header =
       render_body [Comment [token VAR_IDENTIFIER ''notes''], Line_End]
         @ token REGION_TYPE ''run'' # drop 5 noted_header
   \<and> list_all blank [Comment [token VAR_IDENTIFIER ''notes''], Line_End]
   \<and> first_begin noted_header 0 = Raise (Exit 1)
   \<and> parse_lexed_expt_file 3 noted_header empty_expt_file = Raise (Exit 1)
   \<and> parse_lexed_build_file 3 noted_header empty_build_file = Raise (Exit 1)
   \<and> parse_lexed_build_file 3
        (render_body [Line_End]
           @ [token BEGIN_MARKER ''begin'', token REGION ''filetype'', token REGION_TYPE ''run''])
        empty_build_file
        \<in> {Raise (Exit 2), Raise (Exit 3), Raise (Exit 4)}"
proof -
  have a: "first_begin build_header 0 = Ok 0" by code_simp
  have b: "0 + 2 < length build_header" by code_simp
  have c: "\<not> filetype_header build_header 0 ''run''" by code_simp
  have d: "first_begin stray_header 0 = Raise (Exit 1)" by code_simp
  have e: "noted_header =
       render_body [Comment [token VAR_IDENTIFIER ''notes''], Line_End]
         @ token REGION_TYPE ''run'' # drop 5 noted_header"
    by code_simp
  have f: "list_all blank [Comment [token VAR_IDENTIFIER ''notes''], Line_End]" by simp
  have g: "lex (token REGION_TYPE ''run'') \<noteq> BEGIN_MARKER"
    "lex (token REGION_TYPE ''run'') \<noteq> SINGLE_COMMENT"
    "lex (token REGION_TYPE ''run'') \<noteq> NEW_LINE"
    by simp_all
  have h: "list_all blank [Line_End]" "lex (token BEGIN_MARKER ''begin'') = BEGIN_MARKER"
    "\<not> (lex (token REGION ''filetype'') = REGION
        \<and> raw_token (token REGION ''filetype'') = ''filetype''
        \<and> raw_token (token REGION_TYPE ''run'') = ''build'')"
    by simp_all
  note first = header_mismatch_is_fatal [of 3 build_header empty_expt_file empty_build_file 0]
  note second = header_mismatch_is_fatal [of 3 stray_header empty_expt_file empty_build_file 0]
  note third = header_mismatch_is_fatal [of 3 "[]" empty_expt_file empty_build_file 0
      "[Comment [token VAR_IDENTIFIER ''notes''], Line_End]" "token REGION_TYPE ''run''"
      "drop 5 noted_header"]
  note fourth = header_mismatch_is_fatal [of 3 "[]" empty_expt_file empty_build_file 0
      "[Line_End]" "token BEGIN_MARKER ''begin''" "[]" "token REGION ''filetype''"
      "token REGION_TYPE ''run''"]
  have "parse_lexed_expt_file 3 build_header empty_expt_file
        \<in> {Raise (Exit 2), Raise (Exit 3), Raise (Exit 4)}"
    using first a b c by blast
  moreover have "parse_lexed_build_file 3 stray_header empty_build_file = Raise (Exit 1)"
    using second d by blast
  moreover have "first_begin noted_header 0 = Raise (Exit 1)"
    "parse_lexed_expt_file 3 noted_header empty_expt_file = Raise (Exit 1)"
    "parse_lexed_build_file 3 noted_header empty_build_file = Raise (Exit 1)"
    using third f g e by simp_all
  moreover have "parse_lexed_build_file 3
        (render_body [Line_End]
           @ [token BEGIN_MARKER ''begin'', token REGION ''filetype'', token REGION_TYPE ''run''])
        empty_build_file
        \<in> {Raise (Exit 2), Raise (Exit 3), Raise (Exit 4)}"
    using fourth h by simp
  ultimately show ?thesis
    using a b c d e f by blast
qed

lemma first_begin_nil: "first_begin [] 0 = Raise OutOfBounds"
  by code_simp

text \<open>
  C5, as the claim states it, fails: an empty document has no \<^verbatim>\<open>filetype\<close> region, and
  parsing it reads the first element of an empty token vector; there is no diagnostic
  and no exit code.
\<close>

theorem no_begin_marker_no_diagnostic:
  "(\<forall>fuel e_file. parse_lexed_expt_file fuel [] e_file = Raise OutOfBounds)
   \<and> (\<forall>fuel b_file. parse_lexed_build_file fuel [] b_file = Raise OutOfBounds)"
  by (simp add: parse_lexed_expt_file_def parse_lexed_build_file_def first_begin_nil)

section \<open>Properties of the run on the example file\<close>

lemma example_file_parsed:
  "case parse_file 40 example_file of
     Ok (tokens, e_file) \<Rightarrow>
       experiment_pairs (parsed_trial_info e_file) = [(''t1'', ''5'')]
       \<and> session_map (parsed_trial_info e_file) ''t1'' = None
       \<and> block_map (parsed_trial_info e_file) ''t1'' = None
       \<and> trial_map (parsed_trial_info e_file) ''t1'' \<noteq> None
       \<and> map (field_value (parsed_trial_info e_file) ''t1'') trial_fields
           = [''1'', ''0'', ''0'', ''100'', ''500'', ''0.5'', ''1'', ''1400'']
   | Raise e \<Rightarrow> False
   | Timeout \<Rightarrow> False"
  by code_simp

lemma write_names_replicate:
  "first_empty + k \<le> length names \<Longrightarrow>
     write_names names first_empty k name =
       Ok (take first_empty names @ replicate k name @ drop (first_empty + k) names)"
proof (induction k arbitrary: names first_empty)
  case 0
  show ?case by simp
next
  case (Suc k)
  then show ?case
    by (simp add: upd_conv_take_nth_drop take_Suc_conv_app_nth replicate_app_Cons_same
        add.commute)
qed

lemma stoi_5: "stoi_u32 ''5'' = Ok 5" by code_simp

lemma stoi_1: "stoi_u32 ''1'' = Ok 1" by code_simp

lemma stoi_0: "stoi_u32 ''0'' = Ok 0" by code_simp

lemma stoi_100: "stoi_u32 ''100'' = Ok 100" by code_simp

lemma stoi_500: "stoi_u32 ''500'' = Ok 500" by code_simp

lemma stoi_1400: "stoi_u32 ''1400'' = Ok 1400" by code_simp

lemma single_trial_table:
  fixes e_file :: parsed_expt_file
  defines "pt \<equiv> parsed_trial_info e_file"
  assumes ex: "experiment_pairs pt = [(''t1'', ''5'')]"
    and s: "session_map pt ''t1'' = None" and b: "block_map pt ''t1'' = None"
    and t: "trial_map pt ''t1'' \<noteq> None"
    and f: "map (field_value pt ''t1'') trial_fields
           = [''1'', ''0'', ''0'', ''100'', ''500'', ''0.5'', ''1'', ''1400'']"
    and stof: "stof ''0.5'' = Ok v"
  shows "translate_parsed_trials (Suc depth) stof e_file empty_trials_data
     = Ok \<lparr> num_trials = 5, trial_names = [''t1'', ''t1'', ''t1'', ''t1'', ''t1''], 
            use_pfpc_plasts = [0, 0, 0, 0, 0], use_mfnc_plasts = [0, 0, 0, 0, 0],
       use_css = [1, 1, 1, 1, 1], cs_onsets = [100, 100, 100, 100, 100],
       cs_lens = [500, 500, 500, 500, 500], cs_percents = [v, v, v, v, v],
       use_uss = [1, 1, 1, 1, 1],
       us_onsets = [1400, 1400, 1400, 1400, 1400]\<rparr>"
proof -
  have n: "calculate_num_trials (Suc depth) pt = Ok 5"
    using ex s b 
    by (simp add: calculate_num_trials_def count_pair_def stoi_5)
  have names: "initialize_trial_names_helper (Suc depth) pt [(''t1'', ''5'')] (replicate 5 []) = Ok (replicate 5 ''t1'')"
    using t by (simp add: names_pair_def stoi_5 find_empty_def write_names_replicate)
  have five: "[0 ..< 5] = [0, 1, 2, 3, 4]"
    by (simp add: upt_rec)
  have rep: "\<And>x. replicate 5 x = [x, x, x, x, x]"
    by (simp add: eval_nat_numeral)
  from f have fields: "field_value pt ''t1'' ''use_cs'' = ''1''"
    "field_value pt ''t1'' ''use_pfpc_plast'' = ''0''"
    "field_value pt ''t1'' ''use_mfnc_plast'' = ''0''"
    "field_value pt ''t1'' ''cs_onset'' = ''100''"
    "field_value pt ''t1'' ''cs_len'' = ''500''"
    "field_value pt ''t1'' ''cs_percent'' = ''0.5''"
    "field_value pt ''t1'' ''use_us'' = ''1''"
    "field_value pt ''t1'' ''us_onset'' = ''1400''"
    by (simp_all add: trial_fields_def)
  show ?thesis
    using names
    unfolding translate_parsed_trials_def pt_def [symmetric]
    by (simp add: n initialize_trials_data_def allocate_trials_data_def
        empty_trials_data_def ex five rep set_trial_def fields stof stoi_1 stoi_0 stoi_100 stoi_500 stoi_1400)
qed

lemma example_as_written_parsed:
  "case parse_file 40 example_as_written of
     Ok (tokens, e_file) \<Rightarrow> experiment_pairs (parsed_trial_info e_file) = []
   | Raise e \<Rightarrow> False
   | Timeout \<Rightarrow> False"
  by code_simp

lemma empty_experiment_table:
  assumes "experiment_pairs (parsed_trial_info e_file) = []"
  shows "translate_parsed_trials (Suc depth) stof e_file empty_trials_data = Ok empty_trials_data"
  using assms
  by (simp add: translate_parsed_trials_def calculate_num_trials_def initialize_trials_data_def
      allocate_trials_data_def empty_trials_data_def)

lemma example_on_lines_parsed:
  "case parse_file 40 example_on_lines of
     Ok (tokens, e_file) \<Rightarrow> experiment_pairs (parsed_trial_info e_file) = []
   | Raise e \<Rightarrow> False
   | Timeout \<Rightarrow> False"
  by code_simp

lemma empty_experiment_run:
  assumes "case parse_file 40 content of
     Ok (tokens, e_file) \<Rightarrow> experiment_pairs (parsed_trial_info e_file) = []
   | Raise e \<Rightarrow> False
   | Timeout \<Rightarrow> False"
  shows "resolve_file 40 stof content = Ok empty_trials_data"
proof -
  have fuel: "(40::nat) = Suc 39" by simp
  obtain tokens e_file where p: "parse_file 40 content = Ok (tokens, e_file)"
    and e: "experiment_pairs (parsed_trial_info e_file) = []"
  proof (cases "parse_file 40 content")
    case (Ok r)
    obtain tokens e_file where r: "r = (tokens, e_file)" by (cases r)
    have "experiment_pairs (parsed_trial_info e_file) = []"
      using assms unfolding Ok r result.case prod.case by assumption
    with Ok r that show ?thesis by simp
  next
    case (Raise e)
    with assms show ?thesis by (simp only: result.case)
  next
    case Timeout
    with assms show ?thesis by (simp only: result.case)
  qed
  show ?thesis
    unfolding resolve_file_def p
    by (simp only: fuel bind.simps prod.case empty_experiment_table [OF e])
qed

text \<open>
  C2, as the claim states it, fails: in the file that holds the trial \<^verbatim>\<open>t1\<close> and the line
  \<^verbatim>\<open>def experiment  t1 5 end\<close>, the parser takes \<^verbatim>\<open>t1\<close> for the label of the experiment
  and passes over the \<^verbatim>\<open>5\<close>; the experiment is empty and the table has no trial. With
  \<^verbatim>\<open>def experiment\<close>, \<^verbatim>\<open>t1 5\<close> and \<^verbatim>\<open>end\<close> on three lines, no definition is recognised
  and the result is the same.
\<close>

theorem unlabelled_experiment_is_empty:
  "(\<forall>stof :: string \<Rightarrow> ('f::zero) result.
      resolve_file 40 stof example_as_written = Ok empty_trials_data)
   \<and> (\<forall>stof :: string \<Rightarrow> ('f::zero) result.
      resolve_file 40 stof example_on_lines = Ok empty_trials_data)"
  by (simp add: empty_experiment_run [OF example_as_written_parsed]
      empty_experiment_run [OF example_on_lines_parsed])

text \<open>
  C2, amended. For the file that defines the trial \<^verbatim>\<open>t1\<close> with its eight fields, one to a
  line after the line \<^verbatim>\<open>def trial t1\<close>, and the experiment with a label of its own
  (\<^verbatim>\<open>def experiment e1\<close>, then \<^verbatim>\<open>t1 5\<close>, then \<^verbatim>\<open>end\<close>), parsing and trial resolution
  give five trials named \<^verbatim>\<open>t1\<close>, with \<^verbatim>\<open>use_css\<close> all 1 and \<^verbatim>\<open>cs_onsets\<close> all 100,
  where \<^verbatim>\<open>std::stof\<close> converts the literal of \<^verbatim>\<open>cs_percent\<close>.
\<close>

theorem labelled_experiment_resolves:
  assumes "stof ''0.5'' = Ok v"
  shows "resolve_file 40 stof example_file =
     Ok \<lparr> num_trials = 5, trial_names = [''t1'', ''t1'', ''t1'', ''t1'', ''t1''],
          use_pfpc_plasts = [0, 0, 0, 0, 0], use_mfnc_plasts = [0, 0, 0, 0, 0],
          use_css = [1, 1, 1, 1, 1], cs_onsets = [100, 100, 100, 100, 100],
          cs_lens = [500, 500, 500, 500, 500], cs_percents = [v, v, v, v, v],
          use_uss = [1, 1, 1, 1, 1], us_onsets = [1400, 1400, 1400, 1400, 1400] \<rparr>"
proof -
  have fuel: "(40::nat) = Suc 39" by simp
  obtain tokens e_file where p: "parse_file 40 example_file = Ok (tokens, e_file)"
    and e: "experiment_pairs (parsed_trial_info e_file) = [(''t1'', ''5'')]"
      "session_map (parsed_trial_info e_file) ''t1'' = None"
      "block_map (parsed_trial_info e_file) ''t1'' = None"
      "trial_map (parsed_trial_info e_file) ''t1'' \<noteq> None"
      "map (field_value (parsed_trial_info e_file) ''t1'') trial_fields
           = [''1'', ''0'', ''0'', ''100'', ''500'', ''0.5'', ''1'', ''1400'']"
  proof (cases "parse_file 40 example_file")
    case (Ok r)
    obtain tokens e_file where r: "r = (tokens, e_file)" by (cases r)
    have obs: "experiment_pairs (parsed_trial_info e_file) = [(''t1'', ''5'')]
       \<and> session_map (parsed_trial_info e_file) ''t1'' = None
       \<and> block_map (parsed_trial_info e_file) ''t1'' = None
       \<and> trial_map (parsed_trial_info e_file) ''t1'' \<noteq> None
       \<and> map (field_value (parsed_trial_info e_file) ''t1'') trial_fields
           = [''1'', ''0'', ''0'', ''100'', ''500'', ''0.5'', ''1'', ''1400'']"
      using example_file_parsed unfolding Ok r result.case prod.case by assumption
    from Ok r have "parse_file 40 example_file = Ok (tokens, e_file)" by simp
    from that [OF this obs [THEN conjunct1] obs [THEN conjunct2, THEN conjunct1]
        obs [THEN conjunct2, THEN conjunct2, THEN conjunct1]
        obs [THEN conjunct2, THEN conjunct2, THEN conjunct2, THEN conjunct1]
        obs [THEN conjunct2, THEN conjunct2, THEN conjunct2, THEN conjunct2]]
    show ?thesis .
  next
    case (Raise e)
    with example_file_parsed show ?thesis by (simp only: result.case)
  next
    case Timeout
    with example_file_parsed show ?thesis by (simp only: result.case)
  qed
  have "translate_parsed_trials (Suc 39) stof e_file empty_trials_data =
     Ok \<lparr> num_trials = 5, trial_names = [''t1'', ''t1'', ''t1'', ''t1'', ''t1''],
          use_pfpc_plasts = [0, 0, 0, 0, 0], use_mfnc_plasts = [0, 0, 0, 0, 0],
          use_css = [1, 1, 1, 1, 1], cs_onsets = [100, 100, 100, 100, 100],
          cs_lens = [500, 500, 500, 500, 500], cs_percents = [v, v, v, v, v],
          use_uss = [1, 1, 1, 1, 1], us_onsets = [1400, 1400, 1400, 1400, 1400] \<rparr>"
    using e assms by (rule single_trial_table [where stof = stof and v = v])
  then show ?thesis
    unfolding resolve_file_def p by (simp only: fuel bind.simps prod.case)
qed

theorem labelled_experiment_resolves_witness:
  "stof_half ''0.5'' = Ok (1 / 2)
   \<and> resolve_file 40 stof_half example_file =
     Ok \<lparr> num_trials = 5, trial_names = [''t1'', ''t1'', ''t1'', ''t1'', ''t1''],
          use_pfpc_plasts = [0, 0, 0, 0, 0], use_mfnc_plasts = [0, 0, 0, 0, 0],
          use_css = [1, 1, 1, 1, 1], cs_onsets = [100, 100, 100, 100, 100],
          cs_lens = [500, 500, 500, 500, 500], cs_percents = [1 / 2, 1 / 2, 1 / 2, 1 / 2, 1 / 2],
          use_uss = [1, 1, 1, 1, 1], us_onsets = [1400, 1400, 1400, 1400, 1400] \<rparr>"
proof -
  have h: "stof_half ''0.5'' = Ok (1 / 2)"
    by (simp add: stof_half_def)
  from labelled_experiment_resolves [of stof_half "1 / 2", OF h] h show ?thesis by simp
qed

section \<open>Properties of the loop of the definition parser\<close>

lemma nth_shadows_tok:
  "(before @ replicate k shadow_token @ tok # rest) ! (length before + k) = tok"
  by (simp add: nth_append)

lemma nth_last_shadow:
  "0 < k \<Longrightarrow> i + 1 = length before + k \<Longrightarrow>
     (before @ replicate k shadow_token @ tok # rest) ! i = 
       shadow_token"
  by (auto simp: nth_append)

lemma nth_in_shadows:
  "i < k \<Longrightarrow> (before @ replicate k shadow_token @ after) ! (length before + i) = shadow_token"
  by (simp add: nth_append)

lemma insert_shadow:
  "take (length before + k) (before @ replicate k shadow_token @ tok # rest)
     @ shadow_token # drop (length before + k) (before @ replicate k shadow_token @ tok # rest)
   = before @ replicate (Suc k) shadow_token @ tok # rest"
  by (simp add: replicate_append_same)

lemma lex_shadow: "lex shadow_token = VAR_VALUE"
  by (simp add: shadow_token_def)

lemma stuck_on_identifier:
  assumes toks: "d_tokens st = before @ replicate k shadow_token @ tok # rest"
    and b: "before \<noteq> []" "lex (last before) \<noteq> VAR_IDENTIFIER" "lex (last before) \<noteq> NEW_LINE"
    and t: "lex tok = VAR_IDENTIFIER" and p: "fst (curr_pair st) \<noteq> []"
    and pl: "prev_lex st \<noteq> VAR_IDENTIFIER" "prev_lex st \<noteq> NEW_LINE"
    and pos: "d_ltp st = length before + k"
    and dt: "def_type \<noteq> ''trial''"
  shows "\<exists>st'. def_step def_type st = Ok st' \<and> stuck st'"
proof -
  let ?toks' = "before @ replicate (Suc k) shadow_token @ tok # rest"
  have at: "d_tokens st ! d_ltp st = tok"
    unfolding toks pos by (rule nth_shadows_tok)
  have len: "d_ltp st < length (d_tokens st)"
    unfolding toks pos by simp
  have gt: "d_ltp st \<noteq> 0" using b(1) pos by simp
  have sw: "def_switch def_type tok st =
      Ok (st\<lparr> d_tokens := ?toks', d_ltp := d_ltp st - 1 \<rparr>)"
    using t p dt gt insert_shadow [of before k tok rest]
    by (simp add: def_switch_def toks pos)
  have prev: "lex (?toks' ! (d_ltp st - 1)) \<noteq> VAR_IDENTIFIER \<and> lex (?toks' ! (d_ltp st - 1)) \<noteq> NEW_LINE"
  proof (cases k)
    case 0
    with b pos show ?thesis by (simp add: nth_append last_conv_nth)
  next
    case (Suc j)
    have "?toks' ! (length before + j) = shadow_token"
      by (rule nth_in_shadows) (simp add: Suc)
    with pos Suc have "?toks' ! (d_ltp st - 1) = shadow_token"
      by simp
    then show ?thesis by (simp add: lex_shadow del: replicate_Suc)
  qed
  have "?toks' ! (length before + k) = shadow_token"
    by (rule nth_in_shadows) simp
  with gt pos have here: "?toks' ! (d_ltp st - 1 + 1) = shadow_token"
    by simp
  have adv: "def_advance def_type (st\<lparr> d_tokens := ?toks', d_ltp := d_ltp st - 1 \<rparr>) =
      Ok (st\<lparr> d_tokens := ?toks', d_ltp := d_ltp st,
              prev_lex := lex (?toks' ! (d_ltp st - 1)) \<rparr>)"
    using gt here pos by (simp add: def_advance_def close_pending_def lex_at_def lex_shadow del: replicate_Suc)
  have "stuck (st\<lparr> d_tokens := ?toks', d_ltp := d_ltp st,
              prev_lex := lex (?toks' ! (d_ltp st - 1)) \<rparr>)"
    unfolding stuck_def
    apply (rule exI [of _ before], rule exI [of _ "Suc k"], rule exI [of _ tok], rule exI [of _ rest])
    using b t p prev pos by simp
  with sw adv at len show ?thesis
    by (simp add: def_step_def)
qed

lemma stuck_on_shadow:
  assumes toks: "d_tokens st = before @ replicate k shadow_token @ tok # rest"
    and b: "before \<noteq> []" "lex (last before) \<noteq> VAR_IDENTIFIER" "lex (last before) \<noteq> NEW_LINE"
    and t: "lex tok = VAR_IDENTIFIER" and p: "fst (curr_pair st) \<noteq> []"
    and pl: "prev_lex st \<noteq> VAR_IDENTIFIER" "prev_lex st \<noteq> NEW_LINE"
    and pos: "0 < k" "d_ltp st + 1 = length before + k"
    and dt: "def_type \<noteq> ''trial''"
  shows "\<exists>st'. def_step def_type st = Ok st' \<and> stuck st'"
proof -
  have at: "d_tokens st ! d_ltp st = shadow_token"
    unfolding toks using pos by (rule nth_last_shadow)
  have len: "d_ltp st < length (d_tokens st)"
    unfolding toks using pos by simp
  have sw: "def_switch def_type shadow_token st = Ok st"
    using pl by (simp add: def_switch_def lex_shadow)
  have nxt: "d_tokens st ! (d_ltp st + 1) = tok"
    unfolding toks pos(2) by (rule nth_shadows_tok)
  have adv: "def_advance def_type st = Ok (st\<lparr> d_ltp := d_ltp st + 1, prev_lex := VAR_VALUE \<rparr>)"
    using at nxt t len pos
    by (simp add: def_advance_def close_pending_def lex_at_def lex_shadow toks)
  have "stuck (st\<lparr> d_ltp := d_ltp st + 1, prev_lex := VAR_VALUE \<rparr>)"
    unfolding stuck_def
    apply (rule exI [of _ before], rule exI [of _ k], rule exI [of _ tok], rule exI [of _ rest])
    using toks b t p pos by simp
  with sw adv at len show ?thesis
    by (simp add: def_step_def)
qed

lemma stuck_step:
  assumes "stuck st" and "def_type \<noteq> ''trial''"
  shows "\<exists>st'. def_step def_type st = Ok st' \<and> stuck st'"
  using assms unfolding stuck_def [of st]
  by (elim exE conjE disjE) (blast intro: stuck_on_identifier stuck_on_shadow)+

lemma stuck_not_end:
  assumes "stuck st"
  shows "\<exists>l. lex_at (d_tokens st) (d_ltp st) = Ok l \<and> l \<noteq> END_MARKER"
proof -
  from assms obtain before k tok rest
    where toks: "d_tokens st = before @ replicate k shadow_token @ tok # rest"
      and t: "lex tok = VAR_IDENTIFIER"
      and pos: "d_ltp st = length before + k \<or> (0 < k \<and> d_ltp st + 1 = length before + k)"
    unfolding stuck_def by blast
  from pos show ?thesis
  proof
    assume "d_ltp st = length before + k"
    then have "lex_at (d_tokens st) (d_ltp st) = Ok (lex tok)"
      unfolding toks lex_at_def by (simp only: nth_shadows_tok) simp
    with t show ?thesis by simp
  next
    assume a: "0 < k \<and> d_ltp st + 1 = length before + k"
    then have "d_tokens st ! d_ltp st = shadow_token"
      unfolding toks by (blast intro: nth_last_shadow)
    moreover from a have "d_ltp st < length (d_tokens st)"
      unfolding toks by simp
    ultimately show ?thesis by (simp add: lex_at_def lex_shadow)
  qed
qed

lemma stuck_timeout:
  "stuck st \<Longrightarrow> def_type \<noteq> ''trial'' \<Longrightarrow> parse_def_loop fuel def_type st = Timeout"
proof (induction fuel arbitrary: st)
  case 0
  show ?case by simp
next
  case (Suc fuel)
  from stuck_not_end [OF Suc.prems(1)] obtain l
    where l: "lex_at (d_tokens st) (d_ltp st) = Ok l" "l \<noteq> END_MARKER" by blast
  from stuck_step [OF Suc.prems] obtain st'
    where st': "def_step def_type st = Ok st'" "stuck st'" by blast
  from Suc.IH [OF st'(2) Suc.prems(2)] l st' show ?case by simp
qed

lemma identifier_type_identifier:
  assumes toks: "d_tokens st = before @ a # b # c # rest"
    and a: "lex a = VAR_IDENTIFIER" "raw_token a \<noteq> []"
    and b: "lex b = TYPE_NAME" and c: "lex c = VAR_IDENTIFIER"
    and pos: "d_ltp st = length before" and cp: "fst (curr_pair st) = []"
    and dt: "def_type \<noteq> ''trial''"
  shows "parse_def_loop fuel def_type st = Timeout"
proof -
  let ?st1 = "st\<lparr> curr_pair := (raw_token a, snd (curr_pair st)),
                   d_ltp := length before + 1, prev_lex := VAR_IDENTIFIER \<rparr>"
  let ?st2 = "?st1\<lparr> d_ltp := length before + 2, prev_lex := TYPE_NAME \<rparr>"
  have s1: "def_step def_type st = Ok ?st1"
    using a b cp dt
    by (simp add: def_step_def def_switch_def def_advance_def close_pending_def lex_at_def toks pos nth_append)
  have s2: "def_step def_type ?st1 = Ok ?st2"
    using a b c dt
    by (simp add: def_step_def def_switch_def def_advance_def close_pending_def lex_at_def toks nth_append)
  have "stuck ?st2"
    unfolding stuck_def
    apply (rule exI [of _ "before @ [a, b]"], rule exI [of _ 0], rule exI [of _ c],
        rule exI [of _ rest])
    using a b c by (simp add: toks)
  then have loop2: "\<And>n. parse_def_loop n def_type ?st2 = Timeout"
    using dt by (rule stuck_timeout)
  have l0: "lex_at (d_tokens st) (d_ltp st) = Ok VAR_IDENTIFIER"
    using a by (simp add: lex_at_def toks pos)
  have l1: "lex_at (d_tokens ?st1) (d_ltp ?st1) = Ok TYPE_NAME"
    using b by (simp add: lex_at_def toks nth_append)
  show ?thesis
  proof (cases fuel)
    case 0
    then show ?thesis by simp
  next
    case (Suc n)
    show ?thesis
    proof (cases n)
      case 0
      with Suc l0 s1 show ?thesis by simp
    next
      case (Suc m)
      with \<open>fuel = Suc n\<close> l0 l1 s1 s2 loop2 [of m] show ?thesis by simp
    qed
  qed
qed

lemma loop_file_lexed:
  "bind (tokenize_file (Some loop_file) []) (\<lambda>t_file. Ok (lex_tokenized_file t_file []))
     = Ok loop_tokens"
  by code_simp

lemma loop_tokens_split:
  "loop_tokens = take 12 loop_tokens @ token VAR_IDENTIFIER ''A'' # token TYPE_NAME ''int''
       # token VAR_IDENTIFIER ''B'' # drop 15 loop_tokens"
  by (simp add: loop_tokens_def)

lemma loop_def_diverges:
  "parse_def fuel (12, loop_tokens, e_file) ''block'' ''b'' = Timeout"
proof -
  have "parse_def_loop fuel ''block'' (init_def_state 12 loop_tokens e_file) = Timeout"
  proof (rule identifier_type_identifier)
    show "d_tokens (init_def_state 12 loop_tokens e_file) =
        take 12 loop_tokens @ token VAR_IDENTIFIER ''A'' # token TYPE_NAME ''int''
          # token VAR_IDENTIFIER ''B'' # drop 15 loop_tokens"
      using loop_tokens_split by (simp add: init_def_state_def)
    show "d_ltp (init_def_state 12 loop_tokens e_file) = length (take 12 loop_tokens)"
      by (simp add: init_def_state_def loop_tokens_def)
  qed (simp_all add: token_def init_def_state_def)
  then show ?thesis by (simp add: parse_def_def)
qed

lemma loop_section_diverges:
  "parse_trial_section fuel (8, loop_tokens, e_file) = Timeout"
proof (cases fuel)
  case 0
  then show ?thesis by simp
next
  case (Suc n)
  have "lex_at loop_tokens 8 = Ok DEF"
    by (simp add: lex_at_def loop_tokens_def token_def)
  moreover have "next_two_are loop_tokens 8 DEF_TYPE VAR_IDENTIFIER = Ok True"
    by (simp add: next_two_are_def lex_at_def loop_tokens_def token_def)
  moreover have "raw_token (loop_tokens ! (8 + 1)) = ''block''"
    "raw_token (loop_tokens ! (8 + 2)) = ''b''"
    by (simp_all add: loop_tokens_def token_def)
  ultimately show ?thesis
    using loop_def_diverges [of n e_file] by (simp add: Suc)
qed

lemma loop_region_diverges:
  "region_loop fuel (4, loop_tokens, e_file) = Timeout"
proof (cases fuel)
  case 0
  then show ?thesis by simp
next
  case (Suc n)
  have "lex_at loop_tokens 4 = Ok BEGIN_MARKER"
    by (simp add: lex_at_def loop_tokens_def token_def)
  moreover have "next_two_are loop_tokens 4 REGION REGION_TYPE = Ok True"
    by (simp add: next_two_are_def lex_at_def loop_tokens_def token_def)
  moreover have "raw_token (loop_tokens ! (4 + 2)) = ''trial_def''"
    by (simp add: loop_tokens_def token_def)
  ultimately show ?thesis
    using loop_section_diverges [of n e_file] by (simp add: Suc)
qed

lemma loop_tokens_header:
  "first_begin loop_tokens 0 = Ok 0" "check_filetype loop_tokens 0 ''run'' = Ok ''run''"
  by (simp_all add: first_begin.simps check_filetype_def lex_at_def raw_at_def loop_tokens_def
      token_def)

text \<open>
  C8. The claim does not hold of \<^verbatim>\<open>parse_def\<close>: the file below is well formed (every
  \<^verbatim>\<open>begin\<close> and every \<^verbatim>\<open>def\<close> has its \<^verbatim>\<open>end\<close>) and refers to no block or session, yet
  parsing it does not end within any budget. In the block, the identifier \<^verbatim>\<open>B\<close> finds
  \<^verbatim>\<open>A\<close> pending and a type name in front of itself; each turn of the loop inserts one more
  token \<^verbatim>\<open>{VAR_VALUE, "1"}\<close>, which is not accepted as a value, and comes back to \<^verbatim>\<open>B\<close>.
\<close>

theorem shadow_token_loop:
  "\<forall>fuel. parse_file fuel loop_file = Timeout"
proof
  fix fuel
  from loop_file_lexed obtain t_file where t: "tokenize_file (Some loop_file) [] = Ok t_file"
    and l: "lex_tokenized_file t_file [] = loop_tokens"
    by (cases "tokenize_file (Some loop_file) []") simp_all
  have "parse_lexed_expt_file fuel loop_tokens empty_expt_file = Timeout"
    using loop_region_diverges [of fuel empty_expt_file]
    by (simp add: parse_lexed_expt_file_def loop_tokens_header)
  then show "parse_file fuel loop_file = Timeout"
    by (simp add: parse_file_def t l)
qed

section \<open>Properties of the definitions of blocks, sessions and the experiment\<close>

lemma finishes_end:
  "lex_at (d_tokens st) (d_ltp st) = Ok END_MARKER \<Longrightarrow> finishes def_type st st"
  unfolding finishes_def by (rule exI [of _ "Suc 0"]) simp

lemma finishes_step:
  assumes "lex_at (d_tokens st) (d_ltp st) = Ok l" and "l \<noteq> END_MARKER"
    and "def_step def_type st = Ok st1" and "finishes def_type st1 st'"
  shows "finishes def_type st st'"
proof -
  from assms(4) obtain fuel where "parse_def_loop fuel def_type st1 = Ok st'"
    unfolding finishes_def by blast
  with assms(1-3) have "parse_def_loop (Suc fuel) def_type st = Ok st'" by simp
  then show ?thesis unfolding finishes_def by blast
qed

lemma result_of_push_pair:
  "result_of a = result_of b \<Longrightarrow>
     result_of (push_pair def_type p a) = result_of (push_pair def_type p b)"
  unfolding result_of_def push_pair_def
  by (cases "def_type = ''block''"; cases "def_type = ''session''";
      cases "def_type = ''experiment''") simp_all

lemma result_of_push_all:
  "result_of a = result_of b \<Longrightarrow>
     result_of (push_all def_type ps a) = result_of (push_all def_type ps b)"
proof (induction ps arbitrary: a b)
  case Nil
  then show ?case by simp
next
  case (Cons p ps)
  from Cons.prems have "result_of (push_pair def_type p a) = result_of (push_pair def_type p b)"
    by (rule result_of_push_pair)
  then show ?case
    unfolding push_all.simps by (rule Cons.IH)
qed

lemma push_all_append:
  "push_all def_type (ps @ qs) st = push_all def_type qs (push_all def_type ps st)"
  by (induction ps arbitrary: st) simp_all

lemma next_token:
  assumes "lex end_tok = END_MARKER"
  obtains n suf where "render_body es @ end_tok # rest = n # suf"
    and "(lex n = END_MARKER) = (es = [])"
proof (cases es)
  case Nil
  with assms that show ?thesis by (simp add: render_body_def)
next
  case (Cons e es')
  then show ?thesis
    using that by (cases e) (simp_all add: render_body_def new_line_token_def)
qed

lemma step_new_line:
  assumes "d_tokens st = before @ t # n # suf" and "d_ltp st = length before"
    and "lex t = NEW_LINE"
  shows "lex_at (d_tokens st) (d_ltp st) = Ok NEW_LINE"
    and "def_step def_type st = close_pending def_type (st\<lparr> prev_lex := NEW_LINE, d_ltp := length before + 1 \<rparr>)"
  using assms
  by (simp_all add: def_step_def def_switch_def def_advance_def lex_at_def nth_append)

lemma step_identifier:
  assumes "d_tokens st = before @ t # n # suf" and "d_ltp st = length before"
    and "lex t = VAR_IDENTIFIER" and "fst (curr_pair st) = []" and "def_type \<noteq> ''trial''"
  shows "lex_at (d_tokens st) (d_ltp st) = Ok VAR_IDENTIFIER"
    and "def_step def_type st = close_pending def_type
           (st\<lparr> curr_pair := (raw_token t, snd (curr_pair st)),
                prev_lex := VAR_IDENTIFIER, d_ltp := length before + 1 \<rparr>)"
  using assms
  by (simp_all add: def_step_def def_switch_def def_advance_def lex_at_def nth_append)

lemma push_pair_fields:
  "d_tokens (push_pair def_type p st) = d_tokens st"
  "d_ltp (push_pair def_type p st) = d_ltp st"
  "curr_pair (push_pair def_type p st) = curr_pair st"
  "prev_lex (push_pair def_type p st) = prev_lex st"
  by (simp_all add: push_pair_def)

lemma step_value:
  assumes "d_tokens st = before @ t # n # suf" and "d_ltp st = length before"
    and "lex t = VAR_VALUE" and "prev_lex st = VAR_IDENTIFIER \<or> prev_lex st = NEW_LINE"
    and "def_type \<noteq> ''trial''"
  shows "lex_at (d_tokens st) (d_ltp st) = Ok VAR_VALUE"
    and "def_step def_type st =
           Ok ((push_pair def_type (fst (curr_pair st), raw_token t) st)
                 \<lparr> curr_pair := ([], []), prev_lex := VAR_VALUE, d_ltp := length before + 1 \<rparr>)"
proof -
  show "lex_at (d_tokens st) (d_ltp st) = Ok VAR_VALUE"
    using assms(1-3) by (simp add: lex_at_def nth_append)
  have sw: "def_switch def_type t st =
      Ok ((push_pair def_type (fst (curr_pair st), raw_token t) st)\<lparr> curr_pair := ([], []) \<rparr>)"
    using assms(3-5) by (auto simp: def_switch_def)
  have adv: "def_advance def_type
       ((push_pair def_type (fst (curr_pair st), raw_token t) st)\<lparr> curr_pair := ([], []) \<rparr>) =
     Ok ((push_pair def_type (fst (curr_pair st), raw_token t) st)
           \<lparr> curr_pair := ([], []), prev_lex := VAR_VALUE, d_ltp := length before + 1 \<rparr>)"
    using assms(1-3)
    by (simp add: def_advance_def close_pending_def lex_at_def nth_append push_pair_fields)
  show "def_step def_type st =
           Ok ((push_pair def_type (fst (curr_pair st), raw_token t) st)
                 \<lparr> curr_pair := ([], []), prev_lex := VAR_VALUE, d_ltp := length before + 1 \<rparr>)"
    using assms(1,2) sw adv by (simp add: def_step_def nth_append)
qed

lemma step_shadow:
  assumes "d_tokens st = before @ t # suf" and "d_ltp st = length before"
    and "lex t = VAR_IDENTIFIER" and "fst (curr_pair st) \<noteq> []" and "def_type \<noteq> ''trial''"
    and "before \<noteq> []"
  shows "lex_at (d_tokens st) (d_ltp st) = Ok VAR_IDENTIFIER"
    and "def_step def_type st =
           Ok (st\<lparr> d_tokens := before @ shadow_token # t # suf,
                   prev_lex := lex (last before) \<rparr>)"
  using assms
  by (simp_all add: def_step_def def_switch_def def_advance_def close_pending_def lex_at_def
      nth_append shadow_token_def last_conv_nth)

lemma leads_to_step:
  assumes "lex_at (d_tokens st) (d_ltp st) = Ok l" and "l \<noteq> END_MARKER"
    and "def_step def_type st = Ok st1"
  shows "leads_to def_type st st1"
  unfolding leads_to_def using assms by (blast intro: finishes_step)

lemma leads_to_trans:
  "leads_to def_type a b \<Longrightarrow> leads_to def_type b c \<Longrightarrow> leads_to def_type a c"
  unfolding leads_to_def by blast

lemma leads_to_finishes:
  "leads_to def_type a b \<Longrightarrow> finishes def_type b r \<Longrightarrow> finishes def_type a r"
  unfolding leads_to_def by blast

lemma result_of_updates [simp]:
  "result_of (st\<lparr> d_ltp := a \<rparr>) = result_of st"
  "result_of (st\<lparr> d_tokens := b \<rparr>) = result_of st"
  "result_of (st\<lparr> prev_lex := c \<rparr>) = result_of st"
  "result_of (st\<lparr> curr_pair := d \<rparr>) = result_of st"
  by (simp_all add: result_of_def)

lemma push_pair_updates:
  "push_pair def_type p (st\<lparr> d_ltp := a \<rparr>) = (push_pair def_type p st)\<lparr> d_ltp := a \<rparr>"
  "push_pair def_type p (st\<lparr> d_tokens := b \<rparr>) = (push_pair def_type p st)\<lparr> d_tokens := b \<rparr>"
  "push_pair def_type p (st\<lparr> prev_lex := c \<rparr>) = (push_pair def_type p st)\<lparr> prev_lex := c \<rparr>"
  "push_pair def_type p (st\<lparr> curr_pair := d \<rparr>) = (push_pair def_type p st)\<lparr> curr_pair := d \<rparr>"
  by (simp_all add: push_pair_def)

lemma step_comment:
  assumes toks: "d_tokens st = before @ c # ws @ nl # n # suf" and pos: "d_ltp st = length before"
    and c: "lex c = SINGLE_COMMENT" and ws: "list_all (\<lambda>t. lex t \<noteq> NEW_LINE) ws"
    and nl: "lex nl = NEW_LINE"
  shows "lex_at (d_tokens st) (d_ltp st) = Ok SINGLE_COMMENT"
    and "def_step def_type st =
      close_pending def_type (st\<lparr> prev_lex := NEW_LINE, d_ltp := length before + length ws + 2 \<rparr>)"
proof -
  show "lex_at (d_tokens st) (d_ltp st) = Ok SINGLE_COMMENT"
    using c by (simp add: lex_at_def toks pos nth_append)
  have sk: "skip_to_new_line (d_tokens st) (d_ltp st) = Ok (length before + length ws + 1)"
    unfolding toks pos using ws nl c by (rule skip_comment)
  have at_nl: "(before @ c # ws @ nl # n # suf) ! (length before + length ws + 1) = nl"
    by (simp add: nth_append nth_Cons')
  have sw: "def_switch def_type c st = Ok (st\<lparr> d_ltp := length before + length ws + 1 \<rparr>)"
    using c sk by (simp add: def_switch_def)
  have adv: "def_advance def_type (st\<lparr> d_ltp := length before + length ws + 1 \<rparr>) =
      close_pending def_type (st\<lparr> prev_lex := NEW_LINE, d_ltp := length before + length ws + 2 \<rparr>)"
    using nl at_nl by (simp add: def_advance_def lex_at_def toks)
  show "def_step def_type st =
      close_pending def_type (st\<lparr> prev_lex := NEW_LINE, d_ltp := length before + length ws + 2 \<rparr>)"
    using sw adv by (simp add: def_step_def toks pos nth_append)
qed

lemma sentinel_step:
  assumes here: "lex_at (d_tokens st) (d_ltp st) = Ok l" "l \<noteq> END_MARKER"
    and step: "def_step def_type st = close_pending def_type (st\<lparr> prev_lex := NEW_LINE, d_ltp := k \<rparr>)"
    and nx: "k < length (d_tokens st)" "d_tokens st ! k = n"
    and dt: "def_type \<noteq> ''trial''" and cp: "snd (curr_pair st) = []"
  shows "lex n = END_MARKER \<Longrightarrow>
           \<exists>st'. finishes def_type st st' \<and> d_tokens st' = d_tokens st \<and> d_ltp st' = k
             \<and> result_of st' = result_of (push_all def_type (pending_pair (fst (curr_pair st))) st)"
    and "lex n \<noteq> END_MARKER \<Longrightarrow>
           leads_to def_type st (st\<lparr> prev_lex := NEW_LINE, d_ltp := k \<rparr>)"
proof -
  let ?st1 = "st\<lparr> prev_lex := NEW_LINE, d_ltp := k \<rparr>"
  have nxl: "lex_at (d_tokens ?st1) (d_ltp ?st1) = Ok (lex n)"
    using nx by (simp add: lex_at_def)
  {
    assume e: "lex n = END_MARKER"
    show "\<exists>st'. finishes def_type st st' \<and> d_tokens st' = d_tokens st \<and> d_ltp st' = k
             \<and> result_of st' = result_of (push_all def_type (pending_pair (fst (curr_pair st))) st)"
    proof (cases "fst (curr_pair st) = []")
      case True
      then have "def_step def_type st = Ok ?st1"
        using step nxl by (simp add: close_pending_def)
      with here have "leads_to def_type st ?st1"
        by (intro leads_to_step [where l = l]) simp_all
      moreover have "finishes def_type ?st1 ?st1"
        using nxl e by (intro finishes_end) simp
      ultimately have "finishes def_type st ?st1" by (rule leads_to_finishes)
      then show ?thesis
        using True by (intro exI [of _ ?st1]) (simp add: pending_pair_def)
    next
      case False
      let ?st2 = "push_pair def_type (fst (curr_pair st), ''1'')
          (?st1\<lparr> curr_pair := (fst (curr_pair st), ''1'') \<rparr>)"
      have "def_step def_type st = Ok ?st2"
        using step nxl e False cp dt by (simp add: close_pending_def)
      with here have "leads_to def_type st ?st2"
        by (intro leads_to_step [where l = l]) simp_all
      moreover have end2: "lex_at (d_tokens ?st2) (d_ltp ?st2) = Ok END_MARKER"
        using nxl e by (simp add: push_pair_fields)
      then have "finishes def_type ?st2 ?st2" by (rule finishes_end)
      ultimately have "finishes def_type st ?st2" by (rule leads_to_finishes)
      moreover have "result_of ?st2 = result_of (push_pair def_type (fst (curr_pair st), ''1'') st)"
        by (simp add: push_pair_updates)
      ultimately show ?thesis
        using False by (intro exI [of _ ?st2]) (simp add: pending_pair_def push_pair_fields)
    qed
  }
  {
    assume "lex n \<noteq> END_MARKER"
    then have "def_step def_type st = Ok ?st1"
      using step nxl by (simp add: close_pending_def)
    with here show "leads_to def_type st ?st1"
      by (intro leads_to_step [where l = l]) simp_all
  }
qed

lemma bare_step:
  assumes toks: "d_tokens st = before @ t # n # suf" and pos: "d_ltp st = length before"
    and t: "lex t = VAR_IDENTIFIER" "raw_token t \<noteq> []" and dt: "def_type \<noteq> ''trial''"
    and cp: "curr_pair st = ([], [])"
  shows "lex n = END_MARKER \<Longrightarrow>
           \<exists>st'. finishes def_type st st' \<and> d_tokens st' = d_tokens st
             \<and> d_ltp st' = length before + 1
             \<and> result_of st' = result_of (push_pair def_type (raw_token t, ''1'') st)"
    and "lex n \<noteq> END_MARKER \<Longrightarrow>
           leads_to def_type st
             (st\<lparr> curr_pair := (raw_token t, []), prev_lex := VAR_IDENTIFIER,
                  d_ltp := length before + 1 \<rparr>)"
proof -
  let ?st1 = "st\<lparr> curr_pair := (raw_token t, []), prev_lex := VAR_IDENTIFIER,
                  d_ltp := length before + 1 \<rparr>"
  from cp have cp1: "fst (curr_pair st) = []" by simp
  have step: "lex_at (d_tokens st) (d_ltp st) = Ok VAR_IDENTIFIER"
    "def_step def_type st = close_pending def_type ?st1"
    using step_identifier [OF toks pos t(1) cp1 dt] cp by simp_all
  have nx: "lex_at (d_tokens ?st1) (d_ltp ?st1) = Ok (lex n)"
    by (simp add: lex_at_def toks nth_append)
  {
    assume e: "lex n = END_MARKER"
    let ?st2 = "push_pair def_type (raw_token t, ''1'') (?st1\<lparr> curr_pair := (raw_token t, ''1'') \<rparr>)"
    have "def_step def_type st = Ok ?st2"
      using step(2) nx e t(2) dt by (simp add: close_pending_def)
    with step(1) have "leads_to def_type st ?st2"
      by (intro leads_to_step [where l = VAR_IDENTIFIER]) simp_all
    moreover have end2: "lex_at (d_tokens ?st2) (d_ltp ?st2) = Ok END_MARKER"
      using nx e by (simp add: push_pair_fields)
    then have "finishes def_type ?st2 ?st2" by (rule finishes_end)
    ultimately have "finishes def_type st ?st2" by (rule leads_to_finishes)
    moreover have "result_of ?st2 = result_of (push_pair def_type (raw_token t, ''1'') st)"
      by (simp add: push_pair_updates)
    moreover have "d_tokens ?st2 = d_tokens st" "d_ltp ?st2 = length before + 1"
      by (simp_all add: push_pair_fields)
    ultimately show "\<exists>st'. finishes def_type st st' \<and> d_tokens st' = d_tokens st
             \<and> d_ltp st' = length before + 1
             \<and> result_of st' = result_of (push_pair def_type (raw_token t, ''1'') st)"
      by blast
  }
  {
    assume "lex n \<noteq> END_MARKER"
    then have "def_step def_type st = Ok ?st1"
      using step(2) nx by (simp add: close_pending_def)
    with step(1) show "leads_to def_type st ?st1"
      by (intro leads_to_step [where l = VAR_IDENTIFIER]) simp_all
  }
qed

lemma counted_step:
  assumes toks: "d_tokens st = before @ t # v # n # suf" and pos: "d_ltp st = length before"
    and t: "lex t = VAR_IDENTIFIER" "raw_token t \<noteq> []" and v: "lex v = VAR_VALUE"
    and dt: "def_type \<noteq> ''trial''" and cp: "curr_pair st = ([], [])"
  shows "leads_to def_type st
           ((push_pair def_type (raw_token t, raw_token v) st)
              \<lparr> curr_pair := ([], []), prev_lex := VAR_VALUE, d_ltp := length before + 2 \<rparr>)"
proof -
  let ?st1 = "st\<lparr> curr_pair := (raw_token t, []), prev_lex := VAR_IDENTIFIER,
                  d_ltp := length before + 1 \<rparr>"
  from v have "lex v \<noteq> END_MARKER" by simp
  with bare_step(2) [OF toks pos t dt cp] have first: "leads_to def_type st ?st1" .
  have toks1: "d_tokens ?st1 = (before @ [t]) @ v # n # suf"
    by (simp add: toks)
  have pos1: "d_ltp ?st1 = length (before @ [t])" by simp
  have pl: "prev_lex ?st1 = VAR_IDENTIFIER \<or> prev_lex ?st1 = NEW_LINE" by simp
  from step_value [OF toks1 pos1 v pl dt]
  have "leads_to def_type ?st1
      ((push_pair def_type (fst (curr_pair ?st1), raw_token v) ?st1)
         \<lparr> curr_pair := ([], []), prev_lex := VAR_VALUE, d_ltp := length (before @ [t]) + 1 \<rparr>)"
    by (intro leads_to_step [where l = VAR_VALUE]) simp_all
  then have "leads_to def_type ?st1
      ((push_pair def_type (raw_token t, raw_token v) st)
         \<lparr> curr_pair := ([], []), prev_lex := VAR_VALUE, d_ltp := length before + 2 \<rparr>)"
    by (simp add: push_pair_updates)
  with first show ?thesis by (rule leads_to_trans)
qed

lemma flush_pending:
  assumes toks: "d_tokens st = before @ t # suf" and pos: "d_ltp st = length before"
    and t: "lex t = VAR_IDENTIFIER" and dt: "def_type \<noteq> ''trial''"
    and p: "fst (curr_pair st) \<noteq> []"
    and b: "before \<noteq> []" "lex (last before) = VAR_IDENTIFIER \<or> lex (last before) = NEW_LINE"
  shows "leads_to def_type st
           ((push_pair def_type (fst (curr_pair st), ''1'') st)
              \<lparr> d_tokens := (before @ [shadow_token]) @ t # suf, curr_pair := ([], []),
                   prev_lex := VAR_VALUE, d_ltp := length (before @ [shadow_token]) \<rparr>)"
proof -
  let ?stA = "st\<lparr> d_tokens := before @ shadow_token # t # suf, prev_lex := lex (last before) \<rparr>"
  from step_shadow [OF toks pos t p dt b(1)]
  have first: "leads_to def_type st ?stA"
    by (intro leads_to_step [where l = VAR_IDENTIFIER]) simp_all
  have toksA: "d_tokens ?stA = before @ shadow_token # t # suf" by simp
  have posA: "d_ltp ?stA = length before" by (simp add: pos)
  have sh: "lex shadow_token = VAR_VALUE" by (simp add: shadow_token_def)
  have pl: "prev_lex ?stA = VAR_IDENTIFIER \<or> prev_lex ?stA = NEW_LINE" using b(2) by simp
  from step_value [OF toksA posA sh pl dt]
  have "leads_to def_type ?stA
      ((push_pair def_type (fst (curr_pair ?stA), raw_token shadow_token) ?stA)
         \<lparr> curr_pair := ([], []), prev_lex := VAR_VALUE, d_ltp := length before + 1 \<rparr>)"
    by (intro leads_to_step [where l = VAR_VALUE]) simp_all
  then have "leads_to def_type ?stA
      ((push_pair def_type (fst (curr_pair st), ''1'') st)
              \<lparr> d_tokens := (before @ [shadow_token]) @ t # suf, curr_pair := ([], []),
                   prev_lex := VAR_VALUE, d_ltp := length (before @ [shadow_token]) \<rparr>)"
    by (simp add: push_pair_updates shadow_token_def)
  with first show ?thesis by (rule leads_to_trans)
qed

lemma leads_to_refl: "leads_to def_type st st"
  unfolding leads_to_def by simp

lemma result_of_push_more:
  assumes "result_of a = result_of (push_all def_type ps st)"
  shows "result_of (push_all def_type qs a) = result_of (push_all def_type (ps @ qs) st)"
  using result_of_push_all [OF assms, of def_type qs] by (simp add: push_all_append)

lemma before_identifier:
  assumes toks: "d_tokens st = before @ t # suf" and pos: "d_ltp st = length before"
    and t: "lex t = VAR_IDENTIFIER" and dt: "def_type \<noteq> ''trial''"
    and cp: "snd (curr_pair st) = []"
    and pend: "fst (curr_pair st) \<noteq> [] \<Longrightarrow>
        before \<noteq> [] \<and> (lex (last before) = VAR_IDENTIFIER \<or> lex (last before) = NEW_LINE)"
  obtains s0 before0 where "leads_to def_type st s0"
    and "d_tokens s0 = before0 @ t # suf" and "d_ltp s0 = length before0"
    and "curr_pair s0 = ([], [])"
    and "result_of s0 = result_of (push_all def_type (pending_pair (fst (curr_pair st))) st)"
proof (cases "fst (curr_pair st) = []")
  case True
  with cp have "curr_pair st = ([], [])" by (simp add: prod_eq_iff)
  with True toks pos show ?thesis
    by (intro that [of st before]) (simp_all add: leads_to_refl pending_pair_def)
next
  case False
  let ?s0 = "(push_pair def_type (fst (curr_pair st), ''1'') st)
              \<lparr> d_tokens := (before @ [shadow_token]) @ t # suf, curr_pair := ([], []),
                   prev_lex := VAR_VALUE, d_ltp := length (before @ [shadow_token]) \<rparr>"
  from pend [OF False] have b: "before \<noteq> []"
    "lex (last before) = VAR_IDENTIFIER \<or> lex (last before) = NEW_LINE" by simp_all
  have "leads_to def_type st ?s0"
    using toks pos t dt False b by (rule flush_pending)
  moreover have "result_of ?s0 =
      result_of (push_all def_type (pending_pair (fst (curr_pair st))) st)"
    using False by (simp add: pending_pair_def)
  ultimately show ?thesis
    by (intro that [of ?s0 "before @ [shadow_token]"]) simp_all
qed

lemma body_entries:
  assumes dt: "def_type \<noteq> ''trial''" and e: "lex end_tok = END_MARKER"
  shows "list_all entry_ok es \<Longrightarrow>
     d_tokens st = before @ render_body es @ end_tok # rest \<Longrightarrow>
     d_ltp st = length before \<Longrightarrow>
     snd (curr_pair st) = [] \<Longrightarrow>
     (fst (curr_pair st) \<noteq> [] \<longrightarrow>
        before \<noteq> [] \<and> (lex (last before) = VAR_IDENTIFIER \<or> lex (last before) = NEW_LINE)) \<Longrightarrow>
     (es = [] \<longrightarrow> fst (curr_pair st) = []) \<Longrightarrow>
     \<exists>st'. finishes def_type st st' \<and> stops_at end_tok rest st'
       \<and> result_of st' =
           result_of (push_all def_type (pending_pair (fst (curr_pair st)) @ entry_pairs es) st)"
proof (induction es arbitrary: st before)
  case Nil
  then have "lex_at (d_tokens st) (d_ltp st) = Ok END_MARKER"
    using e by (simp add: render_body_def lex_at_def nth_append)
  then have "finishes def_type st st" by (simp add: finishes_end)
  moreover have "stops_at end_tok rest st"
    using Nil by (simp add: stops_at_def render_body_def)
  ultimately show ?case
    using Nil by (intro exI [of _ st]) (simp add: pending_pair_def)
next
  case (Cons en es)
  obtain n suf where nx: "render_body es @ end_tok # rest = n # suf"
    and ne: "(lex n = END_MARKER) = (es = [])"
    using next_token [OF e] by blast
  from Cons.prems(1) have lab: "entry_ok en" "list_all entry_ok es" by simp_all
  let ?p = "fst (curr_pair st)"
  show ?case
  proof (cases en)
    case Line_End
    have toks: "d_tokens st = before @ new_line_token # n # suf"
      using Cons.prems(2) nx by (simp add: render_body_def Line_End)
    have nl: "lex new_line_token = NEW_LINE" by (simp add: new_line_token_def)
    note sn = step_new_line [OF toks Cons.prems(3) nl]
    have k: "length before + 1 < length (d_tokens st)" "d_tokens st ! (length before + 1) = n"
      by (simp_all add: toks nth_append)
    have "NEW_LINE \<noteq> END_MARKER" by simp
    note ls = sentinel_step [OF sn(1) this sn(2) k dt Cons.prems(4)]
    show ?thesis
    proof (cases "es = []")
      case True
      with ne ls(1) obtain st' where st': "finishes def_type st st'"
        "d_tokens st' = d_tokens st" "d_ltp st' = length before + 1"
        "result_of st' = result_of (push_all def_type (pending_pair ?p) st)"
        by auto
      from True nx have "n = end_tok" "suf = rest" by (simp_all add: render_body_def)
      with st'(2,3) toks have "stops_at end_tok rest st'"
        unfolding stops_at_def by (intro exI [of _ "before @ [new_line_token]"]) simp
      with st' True show ?thesis
        by (intro exI [of _ st']) (simp add: Line_End)
    next
      case False
      let ?st1 = "st\<lparr> prev_lex := NEW_LINE, d_ltp := length before + 1 \<rparr>"
      from False ne ls(2) have l: "leads_to def_type st ?st1" by simp
      have "\<exists>st'. finishes def_type ?st1 st' \<and> stops_at end_tok rest st'
         \<and> result_of st' =
           result_of (push_all def_type (pending_pair (fst (curr_pair ?st1)) @ entry_pairs es) ?st1)"
      proof (rule Cons.IH [OF lab(2), where before = "before @ [new_line_token]"])
        show "d_tokens ?st1 = (before @ [new_line_token]) @ render_body es @ end_tok # rest"
          using toks nx by simp
      qed (use Cons.prems(4) False nl in simp_all)
      then obtain st' where st': "finishes def_type ?st1 st'" "stops_at end_tok rest st'"
        "result_of st' =
           result_of (push_all def_type (pending_pair ?p @ entry_pairs es) ?st1)"
        by auto
      have "result_of (push_all def_type (pending_pair ?p @ entry_pairs es) ?st1) =
          result_of (push_all def_type (pending_pair ?p @ entry_pairs es) st)"
        by (rule result_of_push_all) simp
      with st' l show ?thesis
        by (intro exI [of _ st']) (simp add: Line_End leads_to_finishes)
    qed
  next
    case (Comment ws)
    let ?c = "token SINGLE_COMMENT ''//''"
    have toks: "d_tokens st = before @ ?c # ws @ new_line_token # n # suf"
      using Cons.prems(2) nx by (simp add: render_body_def Comment)
    have nl: "lex new_line_token = NEW_LINE" by (simp add: new_line_token_def)
    have c: "lex ?c = SINGLE_COMMENT" by simp
    from lab(1) Comment have ws: "list_all (\<lambda>t. lex t \<noteq> NEW_LINE) ws" by simp
    note sc = step_comment [OF toks Cons.prems(3) c ws nl]
    have k: "length before + length ws + 2 < length (d_tokens st)"
      "d_tokens st ! (length before + length ws + 2) = n"
      by (simp_all add: toks nth_append nth_Cons')
    have "SINGLE_COMMENT \<noteq> END_MARKER" by simp
    note ls = sentinel_step [OF sc(1) this sc(2) k dt Cons.prems(4)]
    show ?thesis
    proof (cases "es = []")
      case True
      with ne ls(1) obtain st' where st': "finishes def_type st st'"
        "d_tokens st' = d_tokens st" "d_ltp st' = length before + length ws + 2"
        "result_of st' = result_of (push_all def_type (pending_pair ?p) st)"
        by auto
      from True nx have "n = end_tok" "suf = rest" by (simp_all add: render_body_def)
      with st'(2,3) toks have "stops_at end_tok rest st'"
        unfolding stops_at_def by (intro exI [of _ "before @ ?c # ws @ [new_line_token]"]) simp
      with st' True show ?thesis
        by (intro exI [of _ st']) (simp add: Comment)
    next
      case False
      let ?st1 = "st\<lparr> prev_lex := NEW_LINE, d_ltp := length before + length ws + 2 \<rparr>"
      from False ne ls(2) have l: "leads_to def_type st ?st1" by simp
      have "\<exists>st'. finishes def_type ?st1 st' \<and> stops_at end_tok rest st'
         \<and> result_of st' =
           result_of (push_all def_type (pending_pair (fst (curr_pair ?st1)) @ entry_pairs es) ?st1)"
      proof (rule Cons.IH [OF lab(2), where before = "before @ ?c # ws @ [new_line_token]"])
        show "d_tokens ?st1 = (before @ ?c # ws @ [new_line_token]) @ render_body es @ end_tok # rest"
          using toks nx by simp
      qed (use Cons.prems(4) False nl in simp_all)
      then obtain st' where st': "finishes def_type ?st1 st'" "stops_at end_tok rest st'"
        "result_of st' =
           result_of (push_all def_type (pending_pair ?p @ entry_pairs es) ?st1)"
        by auto
      have "result_of (push_all def_type (pending_pair ?p @ entry_pairs es) ?st1) =
          result_of (push_all def_type (pending_pair ?p @ entry_pairs es) st)"
        by (rule result_of_push_all) simp
      with st' l show ?thesis
        by (intro exI [of _ st']) (simp add: Comment leads_to_finishes)
    qed
  next
    case (Bare label)
    let ?t = "token VAR_IDENTIFIER label"
    have toks: "d_tokens st = before @ ?t # n # suf"
      using Cons.prems(2) nx by (simp add: render_body_def Bare)
    from lab(1) Bare have label: "raw_token ?t \<noteq> []" by simp
    obtain s0 before0 where s0: "leads_to def_type st s0"
      "d_tokens s0 = before0 @ ?t # n # suf" "d_ltp s0 = length before0"
      "curr_pair s0 = ([], [])"
      "result_of s0 = result_of (push_all def_type (pending_pair ?p) st)"
      using before_identifier [OF toks Cons.prems(3) _ dt Cons.prems(4)] Cons.prems(5)
      by (metis token_fields(1))
    note bs = bare_step [OF s0(2,3) _ label dt s0(4)]
    show ?thesis
    proof (cases "es = []")
      case True
      with ne bs(1) obtain st' where st': "finishes def_type s0 st'"
        "result_of st' = result_of (push_pair def_type (label, ''1'') s0)"
        and at: "d_tokens st' = d_tokens s0" "d_ltp st' = length before0 + 1"
        by auto
      from True nx have "n = end_tok" "suf = rest" by (simp_all add: render_body_def)
      with at s0(2) have stop: "stops_at end_tok rest st'"
        unfolding stops_at_def by (intro exI [of _ "before0 @ [?t]"]) simp
      have "result_of (push_all def_type [(label, ''1'')] s0) =
          result_of (push_all def_type (pending_pair ?p @ [(label, ''1'')]) st)"
        using s0(5) by (rule result_of_push_more)
      with st' stop s0(1) True show ?thesis
        by (intro exI [of _ st']) (simp add: Bare leads_to_finishes)
    next
      case False
      let ?s1 = "s0\<lparr> curr_pair := (label, []), prev_lex := VAR_IDENTIFIER,
                  d_ltp := length before0 + 1 \<rparr>"
      from False ne bs(2) have l: "leads_to def_type s0 ?s1" by simp
      have "\<exists>st'. finishes def_type ?s1 st' \<and> stops_at end_tok rest st'
         \<and> result_of st' =
           result_of (push_all def_type (pending_pair (fst (curr_pair ?s1)) @ entry_pairs es) ?s1)"
      proof (rule Cons.IH [OF lab(2), where before = "before0 @ [?t]"])
        show "d_tokens ?s1 = (before0 @ [?t]) @ render_body es @ end_tok # rest"
          using s0(2) nx by simp
      qed (use False in simp_all)
      then obtain st' where st': "finishes def_type ?s1 st'" "stops_at end_tok rest st'"
        "result_of st' =
           result_of (push_all def_type ((label, ''1'') # entry_pairs es) ?s1)"
        using label by (auto simp: pending_pair_def)
      have "result_of ?s1 = result_of (push_all def_type (pending_pair ?p) st)"
        using s0(5) by simp
      then have "result_of (push_all def_type ((label, ''1'') # entry_pairs es) ?s1) =
          result_of (push_all def_type (pending_pair ?p @ (label, ''1'') # entry_pairs es) st)"
        by (rule result_of_push_more)
      with st' l s0(1) show ?thesis
        by (intro exI [of _ st']) (simp add: Bare leads_to_finishes)
    qed
  next
    case (Counted label count)
    let ?t = "token VAR_IDENTIFIER label"
    let ?v = "token VAR_VALUE count"
    have toks: "d_tokens st = before @ ?t # ?v # n # suf"
      using Cons.prems(2) nx by (simp add: render_body_def Counted)
    from lab(1) Counted have label: "raw_token ?t \<noteq> []" by simp
    obtain s0 before0 where s0: "leads_to def_type st s0"
      "d_tokens s0 = before0 @ ?t # ?v # n # suf" "d_ltp s0 = length before0"
      "curr_pair s0 = ([], [])"
      "result_of s0 = result_of (push_all def_type (pending_pair ?p) st)"
      using before_identifier [OF toks Cons.prems(3) _ dt Cons.prems(4)] Cons.prems(5)
      by (metis token_fields(1))
    let ?s2 = "(push_pair def_type (label, count) s0)
              \<lparr> curr_pair := ([], []), prev_lex := VAR_VALUE, d_ltp := length before0 + 2 \<rparr>"
    have l: "leads_to def_type s0 ?s2"
      using counted_step [OF s0(2,3) _ label _ dt s0(4)] by simp
    have "\<exists>st'. finishes def_type ?s2 st' \<and> stops_at end_tok rest st'
         \<and> result_of st' =
           result_of (push_all def_type (pending_pair (fst (curr_pair ?s2)) @ entry_pairs es) ?s2)"
    proof (rule Cons.IH [OF lab(2), where before = "before0 @ [?t, ?v]"])
      show "d_tokens ?s2 = (before0 @ [?t, ?v]) @ render_body es @ end_tok # rest"
        using s0(2) nx by (simp add: push_pair_fields)
    qed simp_all
    then obtain st' where st': "finishes def_type ?s2 st'" "stops_at end_tok rest st'"
      "result_of st' = result_of (push_all def_type (entry_pairs es) ?s2)"
      by (auto simp: pending_pair_def)
    have "result_of ?s2 = result_of (push_all def_type (pending_pair ?p @ [(label, count)]) st)"
      using result_of_push_more [OF s0(5), of "[(label, count)]"] by simp
    then have "result_of (push_all def_type (entry_pairs es) ?s2) =
        result_of (push_all def_type ((pending_pair ?p @ [(label, count)]) @ entry_pairs es) st)"
      by (rule result_of_push_more)
    with st' l s0(1) show ?thesis
      by (intro exI [of _ st']) (simp add: Counted leads_to_finishes)
  qed
qed

lemma push_all_block:
  "curr_block (push_all ''block'' ps st) = curr_block st @ ps
   \<and> d_e_file (push_all ''block'' ps st) = d_e_file st"
  by (induction ps arbitrary: st) (simp_all add: push_pair_def)

lemma push_all_session:
  "curr_session (push_all ''session'' ps st) = curr_session st @ ps
   \<and> d_e_file (push_all ''session'' ps st) = d_e_file st"
  by (induction ps arbitrary: st) (simp_all add: push_pair_def)

lemma push_all_experiment:
  "d_e_file (push_all ''experiment'' ps st) =
     (d_e_file st)\<lparr> parsed_trial_info := (parsed_trial_info (d_e_file st))
        \<lparr> experiment_pairs := experiment_pairs (parsed_trial_info (d_e_file st)) @ ps \<rparr> \<rparr>"
  by (induction ps arbitrary: st) (simp_all add: push_pair_def)

lemma store_def_result:
  "result_of a = result_of b \<Longrightarrow> store_def def_type def_label a = store_def def_type def_label b"
  by (simp add: result_of_def store_def_def Let_def)

lemma store_pushed:
  assumes "def_type = ''block'' \<or> def_type = ''session'' \<or> def_type = ''experiment''"
  shows "store_def def_type def_label (push_all def_type ps (init_def_state ltp tokens e_file)) =
     file_with_pairs def_type def_label ps e_file"
  using assms push_all_block [of ps "init_def_state ltp tokens e_file"]
    push_all_session [of ps "init_def_state ltp tokens e_file"]
    push_all_experiment [of ps "init_def_state ltp tokens e_file"]
  by (auto simp: store_def_def file_with_pairs_def init_def_state_def Let_def)

lemma parse_def_loop_more:
  "parse_def_loop k def_type st = Ok r \<Longrightarrow> parse_def_loop (k + m) def_type st = Ok r"
proof (induction k arbitrary: st)
  case 0
  then show ?case by simp
next
  case (Suc k)
  show ?case
  proof (cases "lex_at (d_tokens st) (d_ltp st)")
    case (Ok l)
    show ?thesis
    proof (cases "l = END_MARKER")
      case True
      with Ok Suc.prems show ?thesis by simp
    next
      case False
      show ?thesis
      proof (cases "def_step def_type st")
        case step: (Ok st1)
        with Ok False Suc.prems have "parse_def_loop k def_type st1 = Ok r" by simp
        then have "parse_def_loop (k + m) def_type st1 = Ok r" by (rule Suc.IH)
        with Ok False step show ?thesis by simp
      qed (use Ok False Suc.prems in simp_all)
    qed
  qed (use Suc.prems in simp_all)
qed

lemma section_closes:
  assumes e: "lex sec_end = END_MARKER"
  shows "list_all blank bs \<Longrightarrow>
     parse_trial_section (Suc (length bs) + m) (length pre, pre @ render_body bs @ sec_end # rest, e_file) =
       Ok (length pre + length (render_body bs), pre @ render_body bs @ sec_end # rest, e_file)"
proof (induction bs arbitrary: pre)
  case Nil
  have "lex_at (pre @ sec_end # rest) (length pre) = Ok END_MARKER"
    using e by (simp add: lex_at_def)
  then show ?case by (simp add: render_body_def)
next
  case (Cons b bs)
  from Cons.prems have b: "blank b" and bs: "list_all blank bs" by simp_all
  let ?suf = "render_body bs @ sec_end # rest"
  show ?case
  proof (cases b)
    case Line_End
    have here: "lex_at (pre @ new_line_token # ?suf) (length pre) = Ok NEW_LINE"
      by (simp add: lex_at_def new_line_token_def)
    from Cons.IH [OF bs, of "pre @ [new_line_token]"]
    have "parse_trial_section (Suc (length bs) + m) (Suc (length pre), pre @ new_line_token # ?suf, e_file) =
        Ok (Suc (length pre) + length (render_body bs), pre @ new_line_token # ?suf, e_file)"
      by simp
    with here show ?thesis
      by (simp add: Line_End render_body_def)
  next
    case (Comment ws)
    let ?c = "token SINGLE_COMMENT ''//''"
    from b Comment have ws: "list_all (\<lambda>t. lex t \<noteq> NEW_LINE) ws" by simp
    have nl: "lex new_line_token = NEW_LINE" by (simp add: new_line_token_def)
    have c: "lex ?c = SINGLE_COMMENT" by simp
    have here: "lex_at (pre @ ?c # ws @ new_line_token # ?suf) (length pre) = Ok SINGLE_COMMENT"
      by (simp add: lex_at_def)
    have sk: "skip_to_new_line (pre @ ?c # ws @ new_line_token # ?suf) (length pre) =
        Ok (length pre + length ws + 1)"
      using ws nl c by (rule skip_comment)
    from Cons.IH [OF bs, of "pre @ ?c # ws @ [new_line_token]"]
    have "parse_trial_section (Suc (length bs) + m)
        (length pre + length ws + 2, pre @ ?c # ws @ new_line_token # ?suf, e_file) =
        Ok (length pre + length ws + 2 + length (render_body bs),
            pre @ ?c # ws @ new_line_token # ?suf, e_file)"
      by (simp add: add.commute add.left_commute)
    with here sk show ?thesis
      by (simp add: Comment render_body_def add.commute add.left_commute)
  qed (use b in simp_all)
qed




section \<open>Termination of the count and of the expansion of the names\<close>

text \<open>
  On a hierarchy without cycles both walks end, with a result or with the exception of
  \<^verbatim>\<open>std::stoi\<close> or the write outside the array: a depth exists at which they are not
  cut off.
\<close>

lemma below_members:
  assumes "acyclic_by pt rank" and "rank label < Suc k"
    and "block_map pt label = Some v \<or> session_map pt label = Some v"
  shows "below pt rank k v"
proof -
  from assms(3) have "set v \<subseteq> set (members pt label)"
    by (auto simp: members_def split: option.splits)
  with assms(1,2) show ?thesis
    unfolding below_def acyclic_by_def by fastforce
qed

lemma stoi_no_timeout: "stoi str \<noteq> Timeout"
  by (simp add: stoi_def Let_def)

lemma stoi_u32_no_timeout: "stoi_u32 str \<noteq> Timeout"
  using stoi_no_timeout [of str] by (cases "stoi str") (simp_all add: stoi_u32_def)

lemma sum_results_no_timeout:
  "(\<And>r. r \<in> set rs \<Longrightarrow> r \<noteq> Timeout) \<Longrightarrow> sum_results rs \<noteq> Timeout"
proof (induction rs)
  case Nil
  show ?case by simp
next
  case (Cons r rs)
  then have "r \<noteq> Timeout" "sum_results rs \<noteq> Timeout" by simp_all
  then show ?case
    by (cases r; cases "sum_results rs") simp_all
qed

lemma level_total_terminates:
  assumes "acyclic_by pt rank"
  shows "below pt rank k v \<Longrightarrow> level_total (Suc k) pt v \<noteq> Timeout"
proof (induction k arbitrary: v)
  case 0
  have "pair_total (level_total 0 pt) pt p \<noteq> Timeout" if "p \<in> set v" for p
  proof -
    from 0 that have "referenced pt (fst p) = None"
      by (auto simp: below_def is_group_def referenced_def split: option.splits)
    then show ?thesis
      using stoi_u32_no_timeout [of "snd p"]
      by (cases "stoi_u32 (snd p)") (simp_all add: pair_total_def)
  qed
  then show ?case
    unfolding level_total.simps by (intro sum_results_no_timeout) fastforce
next
  case (Suc k)
  have "pair_total (level_total (Suc k) pt) pt p \<noteq> Timeout" if "p \<in> set v" for p
  proof (cases "referenced pt (fst p)")
    case None
    then show ?thesis
      using stoi_u32_no_timeout [of "snd p"]
      by (cases "stoi_u32 (snd p)") (simp_all add: pair_total_def)
  next
    case (Some sub)
    then have grp: "is_group pt (fst p)"
      and sub: "block_map pt (fst p) = Some sub \<or> session_map pt (fst p) = Some sub"
      by (auto simp: referenced_def is_group_def split: option.splits)
    from Suc.prems that grp have "rank (fst p) < Suc k"
      by (auto simp: below_def)
    with assms sub have "below pt rank k sub"
      by (blast intro: below_members)
    then have "level_total (Suc k) pt sub \<noteq> Timeout" by (rule Suc.IH)
    with Some show ?thesis
      using stoi_u32_no_timeout [of "snd p"]
      by (cases "stoi_u32 (snd p)"; cases "level_total (Suc k) pt sub")
         (simp_all add: pair_total_def)
  qed
  then show ?case
    unfolding level_total.simps by (intro sum_results_no_timeout) fastforce
qed

lemma below_exists: "\<exists>k. below pt rank k v"
proof -
  have "below pt rank (Suc (sum_list (map (rank \<circ> fst) v))) v"
    unfolding below_def
    by (force simp: less_Suc_eq_le intro!: member_le_sum_list)
  then show ?thesis ..
qed

lemma count_terminates:
  assumes "acyclic_by pt rank"
  shows "\<exists>depth. calculate_num_trials depth pt \<noteq> Timeout"
proof -
  obtain k where "below pt rank k (experiment_pairs pt)"
    using below_exists by blast
  with assms have "level_total (Suc k) pt (experiment_pairs pt) \<noteq> Timeout"
    by (rule level_total_terminates)
  then have "calculate_num_trials (Suc k) pt \<noteq> Timeout"
    by (cases "level_total (Suc k) pt (experiment_pairs pt)")
       (simp_all add: calculate_num_trials_def helper_level_total del: level_total.simps)
  then show ?thesis ..
qed

lemma write_names_no_timeout: "write_names names i k name \<noteq> Timeout"
  by (induction k arbitrary: names i) simp_all

lemma repeat_body_no_timeout:
  "(\<And>x. body x \<noteq> Timeout) \<Longrightarrow> repeat_body k body x \<noteq> Timeout"
proof (induction k arbitrary: x)
  case 0
  show ?case by simp
next
  case (Suc k)
  then show ?case
    by (cases "body x") simp_all
qed

lemma names_loop_no_timeout:
  "(\<And>p names. p \<in> set v \<Longrightarrow> body p names \<noteq> Timeout) \<Longrightarrow>
     names_loop body v names \<noteq> Timeout"
proof (induction v arbitrary: names)
  case Nil
  show ?case by simp
next
  case (Cons p ps)
  then show ?case
    by (cases "body p names") simp_all
qed

lemma names_pair_no_timeout:
  assumes "\<And>sub names. block_map pt (fst p) = Some sub \<or> session_map pt (fst p) = Some sub
             \<Longrightarrow> rec sub names \<noteq> Timeout"
  shows "names_pair rec pt p names \<noteq> Timeout"
proof -
  have "repeat_body k
       (\<lambda>names'. case block_map pt (fst p) of
            Some v \<Rightarrow> rec v names'
          | None \<Rightarrow> (case session_map pt (fst p) of Some v \<Rightarrow> rec v names' | None \<Rightarrow> Ok names'))
       names \<noteq> Timeout" for k
    by (rule repeat_body_no_timeout) (auto simp: assms split: option.split)
  then show ?thesis
    using stoi_u32_no_timeout [of "snd p"]
    by (cases "stoi_u32 (snd p)") (simp_all add: names_pair_def write_names_no_timeout)
qed

lemma names_helper_terminates:
  assumes "acyclic_by pt rank"
  shows "below pt rank k v \<Longrightarrow> initialize_trial_names_helper (Suc k) pt v names \<noteq> Timeout"
proof (induction k arbitrary: v names)
  case 0
  have "names_pair (initialize_trial_names_helper 0 pt) pt p names' \<noteq> Timeout"
    if "p \<in> set v" for p names'
  proof (rule names_pair_no_timeout)
    fix sub names''
    assume "block_map pt (fst p) = Some sub \<or> session_map pt (fst p) = Some sub"
    with 0 that show "initialize_trial_names_helper 0 pt sub names'' \<noteq> Timeout"
      by (auto simp: below_def is_group_def)
  qed
  then show ?case
    by (simp add: names_loop_no_timeout)
next
  case (Suc k)
  have "names_pair (initialize_trial_names_helper (Suc k) pt) pt p names' \<noteq> Timeout"
    if "p \<in> set v" for p names'
  proof (rule names_pair_no_timeout)
    fix sub names''
    assume sub: "block_map pt (fst p) = Some sub \<or> session_map pt (fst p) = Some sub"
    then have "is_group pt (fst p)" by (auto simp: is_group_def)
    with Suc.prems that have "rank (fst p) < Suc k" by (auto simp: below_def)
    with assms sub have "below pt rank k sub" by (blast intro: below_members)
    then show "initialize_trial_names_helper (Suc k) pt sub names'' \<noteq> Timeout"
      by (rule Suc.IH)
  qed
  then show ?case
    by (simp add: names_loop_no_timeout)
qed

lemma names_terminate:
  assumes "acyclic_by pt rank"
  shows "\<exists>depth. initialize_trial_names_helper depth pt (experiment_pairs pt) names \<noteq> Timeout"
proof -
  obtain k where "below pt rank k (experiment_pairs pt)"
    using below_exists by blast
  with assms have "initialize_trial_names_helper (Suc k) pt (experiment_pairs pt) names \<noteq> Timeout"
    by (rule names_helper_terminates)
  then show ?thesis ..
qed

end
